theory Spec2Isabelle
  imports Main
begin

section \<open>JavaScript values\<close>

text \<open>
  Values that cross the library's boundary (parsed chat frames, event payloads, REST
  bodies, tokens) are JSON-like JavaScript values. Numbers are integers here: the code
  under study only tests them for truthiness and passes them on.
\<close>

datatype json =
    JUndefined
  | JNull
  | JBool bool
  | JNum int
  | JStr string
  | JArr "json list"
  | JObj "(string \<times> json) list"

text \<open>JavaScript truthiness, as tested by \<open>!x\<close>, \<open>x && y\<close> and \<open>x || y\<close>.\<close>

fun truthy :: "json \<Rightarrow> bool" where
  "truthy JUndefined = False"
| "truthy JNull = False"
| "truthy (JBool b) = b"
| "truthy (JNum n) = (n \<noteq> 0)"
| "truthy (JStr s) = (s \<noteq> [])"
| "truthy (JArr _) = True"
| "truthy (JObj _) = True"

text \<open>\<open>a || b\<close>\<close>

definition js_or :: "json \<Rightarrow> json \<Rightarrow> json" where
  "js_or a b = (if truthy a then a else b)"

text \<open>Errors thrown by the library, one constructor for each kind of throw site.\<close>

datatype js_error =
    UnsupportedEvent string
  | ChannelIdRequired
  | RefreshTokenMissing
  | AccessTokenMissing
  | ChatTokenNotFound
  | TypeError string
  | ReferenceError string
  | HandlerError nat
  | AxiosError "nat option"
  | TransportError nat
  | ApiError string js_error

text \<open>
  Property read \<open>v.k\<close>. Reading a property of \<open>null\<close> or \<open>undefined\<close> throws a
  TypeError; a primitive or an array has none of the fields the library reads.
\<close>

fun get_prop :: "json \<Rightarrow> string \<Rightarrow> js_error + json" where
  "get_prop JUndefined k = Inl (TypeError k)"
| "get_prop JNull k = Inl (TypeError k)"
| "get_prop (JObj kvs) k = Inr (case map_of kvs k of None \<Rightarrow> JUndefined | Some v \<Rightarrow> v)"
| "get_prop _ k = Inr JUndefined"

text \<open>Property read on a value known to be an object (no throw).\<close>

definition field :: "json \<Rightarrow> string \<Rightarrow> json" where
  "field v k = (case get_prop v k of Inl _ \<Rightarrow> JUndefined | Inr x \<Rightarrow> x)"

section \<open>The client object\<close>

text \<open>
  A handler is a JavaScript function; \<open>indexOf\<close> compares functions by identity.
  \<open>UserFn i raises\<close> is the caller's function number \<open>i\<close>, which throws when called
  iff \<open>raises\<close>. \<open>OnceHandler i name h\<close> is the closure \<open>onceHandler\<close> that
  \<open>once(name, h)\<close> creates; \<open>i\<close> is its identity, fresh for every call of \<open>once\<close>.
  A function of the caller is taken not to call methods of the client while it runs.
\<close>

datatype handler =
    UserFn nat bool
  | OnceHandler nat string handler

datatype readyState = CONNECTING | OPEN | CLOSING | CLOSED

datatype promise = Pending | Resolved | Rejected js_error

text \<open>
  What runs when the promise returned by \<open>disconnectChat\<close> resolves: the caller's own
  continuation (the promise of the call, resolved), or the rest of \<open>connectChat\<close>
  after its \<open>await this.disconnectChat()\<close>.
\<close>

datatype continuation =
    ResolveDisconnect nat
  | ResumeConnect string nat

text \<open>
  The \<open>onclose\<close> property of a socket: the handler \<open>connectChat\<close> installs (it
  captures \<open>channelId\<close>), or the one \<open>disconnectChat\<close> puts in its place.
\<close>

datatype onclose_handler =
    ReconnectOnClose string
  | DisconnectOnClose continuation

text \<open>
  A WebSocket object with the handlers \<open>connectChat\<close> installed on it. The handlers
  capture \<open>channelId\<close>, \<open>chatAccessToken\<close> and the \<open>resolve\<close>/\<open>reject\<close> of
  the call's promise.
\<close>

record websocket =
  ready :: readyState
  ws_channelId :: string
  ws_token :: json
  ws_promise :: nat
  onclose :: onclose_handler
  frames :: "json list"

text \<open>
  A request is its method, its URL and the token of its \<open>Authorization\<close> header
  (\<open>JUndefined\<close> without one). A response is a status with a body, or no response.
\<close>

datatype http_request = Request string string json

datatype http_response = Response nat json | NoResponse

text \<open>
  Methods and fields keep the names of the source; the leading underscore of a private
  method is dropped (\<open>triggerEvent\<close> is \<open>_triggerEvent\<close>).

  The fields of \<open>this\<close>, with the names of the source, followed by the part of the
  JavaScript runtime the methods act on: the sockets created, the promises of the calls,
  the pending \<open>setTimeout\<close> callbacks, the active \<open>setInterval\<close> handles, the
  chat-token requests in flight, the clock, and logs of what was observable (requests
  sent, delays scheduled, events emitted, functions invoked, \<open>console.error\<close> lines).
  \<open>clientId\<close> and \<open>clientSecret\<close> only go into request bodies, which are left
  out. A token is kept as the JavaScript value it is, since the code tests it for
  truthiness; \<open>tokenExpiry\<close> is \<open>None\<close> for \<open>null\<close> or NaN.
\<close>

record chzzk =
  accessToken :: json
  refreshToken :: json
  autoRefreshToken :: bool
  tokenExpiry :: "int option"
  tokenRefreshThresholdMs :: int
  eventHandlers :: "string \<rightharpoonup> handler list"
  chatSocket :: "nat option"
  chatChannelId :: "string option"
  chatHeartbeatInterval :: "nat option"
  chatReconnectAttempts :: nat
  chatMaxReconnectAttempts :: nat
  sockets :: "websocket list"
  websocket_defined :: bool
  promises :: "promise list"
  timeouts :: "(nat \<times> string) list"
  scheduled :: "nat list"
  intervals :: "nat list"
  interval_count :: nat
  fetches :: "(string \<times> nat \<times> bool) list"
  closures :: nat
  now :: int
  requests :: "http_request list"
  emitted :: "(string \<times> json) list"
  invoked :: "(handler \<times> json) list"
  console :: "(string \<times> js_error) list"

text \<open>The nine keys of the object literal assigned to \<open>this.eventHandlers\<close>.\<close>

definition event_names :: "string list" where
  "event_names = [''tokenRefresh'', ''tokenExpired'', ''chatMessage'', ''chatDonation'',
     ''chatSubscription'', ''chatNotice'', ''chatError'', ''chatConnected'',
     ''chatDisconnected'']"

record options =
  opt_accessToken :: json
  opt_refreshToken :: json
  opt_autoRefreshToken :: json
  opt_tokenRefreshThresholdMs :: json

text \<open>
  The constructor. The runtime part starts empty, at clock \<open>t\<close>; \<open>ws\<close> tells
  whether the platform defines \<open>WebSocket\<close>. A threshold option that is truthy and not
  a number is read as 0.
\<close>

definition constructor :: "options \<Rightarrow> bool \<Rightarrow> int \<Rightarrow> chzzk" where
  "constructor opts ws t = \<lparr>
     accessToken = js_or (opt_accessToken opts) (JStr ''''),
     refreshToken = js_or (opt_refreshToken opts) (JStr ''''),
     autoRefreshToken = (opt_autoRefreshToken opts \<noteq> JBool False),
     tokenExpiry = None,
     tokenRefreshThresholdMs =
       (case js_or (opt_tokenRefreshThresholdMs opts) (JNum (5 * 60 * 1000)) of
          JNum n \<Rightarrow> n | _ \<Rightarrow> 0),
     eventHandlers = map_of (map (\<lambda>n. (n, [])) event_names),
     chatSocket = None,
     chatChannelId = None,
     chatHeartbeatInterval = None,
     chatReconnectAttempts = 0,
     chatMaxReconnectAttempts = 5,
     sockets = [],
     websocket_defined = ws,
     promises = [],
     timeouts = [],
     scheduled = [],
     intervals = [],
     interval_count = 0,
     fetches = [],
     closures = 0,
     now = t,
     requests = [],
     emitted = [],
     invoked = [],
     console = [] \<rparr>"

definition no_options :: options where
  "no_options = \<lparr> opt_accessToken = JUndefined, opt_refreshToken = JUndefined,
     opt_autoRefreshToken = JUndefined, opt_tokenRefreshThresholdMs = JUndefined \<rparr>"

section \<open>Event dispatcher\<close>

text \<open>
  \<open>this.eventHandlers\<close> is an object literal, so \<open>this.eventHandlers[eventName]\<close>
  also finds what the object inherits from \<open>Object.prototype\<close>: a function or an
  object, truthy, and not an array.
\<close>

definition object_prototype_keys :: "string list" where
  "object_prototype_keys = [''constructor'', ''hasOwnProperty'', ''isPrototypeOf'',
     ''propertyIsEnumerable'', ''toLocaleString'', ''toString'', ''valueOf'',
     ''__proto__'', ''__defineGetter__'', ''__defineSetter__'', ''__lookupGetter__'',
     ''__lookupSetter__'']"

datatype 'a property = Undefined | Inherited | OwnArray 'a

definition lookup_handlers :: "chzzk \<Rightarrow> string \<Rightarrow> handler list property" where
  "lookup_handlers s eventName =
     (case eventHandlers s eventName of
        Some hs \<Rightarrow> OwnArray hs
      | None \<Rightarrow> if eventName \<in> set object_prototype_keys then Inherited else Undefined)"

text \<open>The function \<open>on\<close> returns: \<open>() => { this.off(eventName, handler) }\<close>.\<close>

datatype unsubscribe = Unsubscribe string handler

definition on :: "string \<Rightarrow> handler \<Rightarrow> chzzk \<Rightarrow> (js_error + unsubscribe) \<times> chzzk" where
  "on eventName h s =
     (case lookup_handlers s eventName of
        Undefined \<Rightarrow> (Inl (UnsupportedEvent eventName), s)
      | Inherited \<Rightarrow> (Inl (TypeError ''push''), s)
      | OwnArray hs \<Rightarrow>
          (Inr (Unsubscribe eventName h),
           s\<lparr>eventHandlers := (eventHandlers s)(eventName \<mapsto> hs @ [h])\<rparr>))"

text \<open>\<open>indexOf\<close> then \<open>splice(index, 1)\<close>: the first occurrence goes.\<close>

definition off :: "string \<Rightarrow> handler \<Rightarrow> chzzk \<Rightarrow> (js_error + unit) \<times> chzzk" where
  "off eventName h s =
     (case lookup_handlers s eventName of
        Undefined \<Rightarrow> (Inr (), s)
      | Inherited \<Rightarrow> (Inl (TypeError ''indexOf''), s)
      | OwnArray hs \<Rightarrow>
          (Inr (), s\<lparr>eventHandlers := (eventHandlers s)(eventName \<mapsto> remove1 h hs)\<rparr>))"

definition call_unsubscribe :: "unsubscribe \<Rightarrow> chzzk \<Rightarrow> (js_error + unit) \<times> chzzk" where
  "call_unsubscribe u s = (case u of Unsubscribe eventName h \<Rightarrow> off eventName h s)"

definition once :: "string \<Rightarrow> handler \<Rightarrow> chzzk \<Rightarrow> (js_error + unsubscribe) \<times> chzzk" where
  "once eventName h s =
     on eventName (OnceHandler (closures s) eventName h) (s\<lparr>closures := Suc (closures s)\<rparr>)"

text \<open>
  Calling a handler. A throw leaves the mutations made before it in place, so the state
  is returned in both cases.
\<close>

fun call_handler :: "handler \<Rightarrow> json \<Rightarrow> chzzk \<Rightarrow> (js_error + unit) \<times> chzzk" where
  "call_handler (UserFn i raises) d s =
     (if raises then Inl (HandlerError i) else Inr (),
      s\<lparr>invoked := invoked s @ [(UserFn i raises, d)]\<rparr>)"
| "call_handler (OnceHandler i eventName h) d s =
     (case off eventName (OnceHandler i eventName h)
             (s\<lparr>invoked := invoked s @ [(OnceHandler i eventName h, d)]\<rparr>) of
        (Inl e, s') \<Rightarrow> (Inl e, s')
      | (Inr _, s') \<Rightarrow> call_handler h d s')"

lemma off_handlers_length:
  "off n h s = (r, s') \<Longrightarrow> eventHandlers s m = Some hs \<Longrightarrow>
   \<exists>hs'. eventHandlers s' m = Some hs' \<and> length hs' \<le> length hs"
  by (auto simp: off_def lookup_handlers_def length_remove1 split: option.splits if_splits)

lemma call_handler_handlers_length:
  "call_handler h d s = (r, s') \<Longrightarrow> eventHandlers s m = Some hs \<Longrightarrow>
   \<exists>hs'. eventHandlers s' m = Some hs' \<and> length hs' \<le> length hs"
proof (induction h arbitrary: s r s' hs)
  case (UserFn i raises)
  then show ?case by auto
next
  case (OnceHandler i n h)
  obtain r1 s1 where o: "off n (OnceHandler i n h)
      (s\<lparr>invoked := invoked s @ [(OnceHandler i n h, d)]\<rparr>) = (r1, s1)"
    by (cases "off n (OnceHandler i n h) (s\<lparr>invoked := invoked s @ [(OnceHandler i n h, d)]\<rparr>)")
  have "eventHandlers (s\<lparr>invoked := invoked s @ [(OnceHandler i n h, d)]\<rparr>) m = Some hs"
    using OnceHandler.prems(2) by simp
  from off_handlers_length [OF o this]
  obtain hs1 where h1: "eventHandlers s1 m = Some hs1" "length hs1 \<le> length hs" by blast
  show ?case
  proof (cases r1)
    case (Inl e)
    with o OnceHandler.prems(1) have "s' = s1" by simp
    with h1 show ?thesis by blast
  next
    case (Inr u)
    with o OnceHandler.prems(1) have "call_handler h d s1 = (r, s')" by simp
    from OnceHandler.IH [OF this h1(1)] h1(2) show ?thesis by fastforce
  qed
qed

text \<open>
  The loop \<open>for (const handler of this.eventHandlers[eventName])\<close>. The array iterator
  keeps an index into the array object itself, and \<open>off\<close> splices that same object, so
  each round reads the array as it is then: it stops when the index reaches the current
  length, and takes the element now at the index. A handler that throws is logged with
  \<open>console.error\<close> and the loop goes on.
\<close>

function trigger_from :: "nat \<Rightarrow> string \<Rightarrow> json \<Rightarrow> chzzk \<Rightarrow> chzzk" where
  "trigger_from i eventName d s =
     (case eventHandlers s eventName of
        None \<Rightarrow> s
      | Some hs \<Rightarrow>
          if i < length hs then
            (case call_handler (hs ! i) d s of
               (Inl e, s') \<Rightarrow>
                 trigger_from (Suc i) eventName d (s'\<lparr>console := console s' @ [(eventName, e)]\<rparr>)
             | (Inr _, s') \<Rightarrow> trigger_from (Suc i) eventName d s')
          else s)"
  by pat_completeness auto
termination
proof (relation "measure (\<lambda>(i, n, d, s). length (the (eventHandlers s n)) - i)", goal_cases)
  case 1
  show ?case by simp
next
  case (2 i n d s hs r s' e)
  from call_handler_handlers_length [OF 2(3) [symmetric] 2(1)] 2(1,2) show ?case by auto
next
  case (3 i n d s hs r s' u)
  from call_handler_handlers_length [OF 3(3) [symmetric] 3(1)] 3(1,2) show ?case by auto
qed

definition triggerEvent :: "string \<Rightarrow> json \<Rightarrow> chzzk \<Rightarrow> (js_error + unit) \<times> chzzk" where
  "triggerEvent eventName d s =
     (case lookup_handlers s eventName of
        Undefined \<Rightarrow> (Inr (), s)
      | Inherited \<Rightarrow> (Inl (TypeError ''iterator''), s)
      | OwnArray _ \<Rightarrow>
          (Inr (), trigger_from 0 eventName d (s\<lparr>emitted := emitted s @ [(eventName, d)]\<rparr>)))"

section \<open>Chat session\<close>

subsection \<open>Promises, heartbeat, cleanup\<close>

text \<open>\<open>resolve\<close> and \<open>reject\<close> act on a pending promise only.\<close>

definition settle :: "nat \<Rightarrow> promise \<Rightarrow> chzzk \<Rightarrow> chzzk" where
  "settle p v s =
     (if p < length (promises s) \<and> promises s ! p = Pending
      then s\<lparr>promises := (promises s)[p := v]\<rparr> else s)"

definition new_promise :: "chzzk \<Rightarrow> nat \<times> chzzk" where
  "new_promise s = (length (promises s), s\<lparr>promises := promises s @ [Pending]\<rparr>)"

definition send :: "nat \<Rightarrow> json \<Rightarrow> chzzk \<Rightarrow> chzzk" where
  "send r frame s =
     s\<lparr>sockets := (sockets s)[r := (sockets s ! r)\<lparr>frames := frames (sockets s ! r) @ [frame]\<rparr>]\<rparr>"

definition stopChatHeartbeat :: "chzzk \<Rightarrow> chzzk" where
  "stopChatHeartbeat s =
     (case chatHeartbeatInterval s of
        None \<Rightarrow> s
      | Some h \<Rightarrow> s\<lparr>intervals := removeAll h (intervals s), chatHeartbeatInterval := None\<rparr>)"

text \<open>Interval handles are numbered from 1, so a handle is truthy.\<close>

definition startChatHeartbeat :: "chzzk \<Rightarrow> chzzk" where
  "startChatHeartbeat s =
     (let s1 = stopChatHeartbeat s; h = Suc (interval_count s1)
      in s1\<lparr>interval_count := h, intervals := intervals s1 @ [h],
             chatHeartbeatInterval := Some h\<rparr>)"

text \<open>The interval callback, every 30000 ms while the handle is active.\<close>

definition heartbeat_tick :: "nat \<Rightarrow> chzzk \<Rightarrow> chzzk" where
  "heartbeat_tick h s =
     (if h \<in> set (intervals s) then
        (case chatSocket s of
           None \<Rightarrow> s
         | Some r \<Rightarrow>
             if ready (sockets s ! r) = OPEN
             then send r (JObj [(''type'', JStr ''PING'')]) s else s)
      else s)"

definition cleanupChatConnection :: "chzzk \<Rightarrow> chzzk" where
  "cleanupChatConnection s = (stopChatHeartbeat s)\<lparr>chatReconnectAttempts := 0\<rparr>"

definition channel_json :: "chzzk \<Rightarrow> json" where
  "channel_json s = (case chatChannelId s of None \<Rightarrow> JNull | Some c \<Rightarrow> JStr c)"

definition sendChatAuthMessage :: "json \<Rightarrow> chzzk \<Rightarrow> chzzk" where
  "sendChatAuthMessage chatAccessToken s =
     (case chatSocket s of
        None \<Rightarrow> s
      | Some r \<Rightarrow>
          if ready (sockets s ! r) \<noteq> OPEN then s
          else send r (JObj [(''type'', JStr ''AUTH''), (''token'', chatAccessToken),
                             (''channelId'', channel_json s)]) s)"

subsection \<open>Inbound frames\<close>

text \<open>The source literal for the default tier name, in UTF-8 (Korean, "basic subscription").\<close>

definition default_tierName :: string where
  "default_tierName = [CHR 0xEA, CHR 0xB8, CHR 0xB0, CHR 0xEB, CHR 0xB3, CHR 0xB8, CHR 0x20,
     CHR 0xEA, CHR 0xB5, CHR 0xAC, CHR 0xEB, CHR 0x8F, CHR 0x85]"

definition handleChatMessage :: "json \<Rightarrow> chzzk \<Rightarrow> (js_error + unit) \<times> chzzk" where
  "handleChatMessage message s =
     (case get_prop message ''type'' of
        Inl e \<Rightarrow> (Inl e, s)
      | Inr t \<Rightarrow>
          if t = JStr ''CHAT'' then
            triggerEvent ''chatMessage'' (JObj [
              (''type'', JStr ''message''),
              (''channelId'', channel_json s),
              (''userId'', field message ''userId''),
              (''nickname'', field message ''nickname''),
              (''message'', field message ''content''),
              (''badges'', js_or (field message ''badges'') (JArr [])),
              (''timestamp'', js_or (field message ''timestamp'') (JNum (now s)))]) s
          else if t = JStr ''DONATION'' then
            triggerEvent ''chatDonation'' (JObj [
              (''type'', JStr ''donation''),
              (''channelId'', channel_json s),
              (''userId'', field message ''userId''),
              (''nickname'', field message ''nickname''),
              (''message'', field message ''content''),
              (''amount'', field message ''amount''),
              (''currency'', js_or (field message ''currency'') (JStr ''KRW'')),
              (''isAnonymous'', JBool (truthy (field message ''isAnonymous''))),
              (''badges'', js_or (field message ''badges'') (JArr [])),
              (''timestamp'', js_or (field message ''timestamp'') (JNum (now s)))]) s
          else if t = JStr ''SUBSCRIPTION'' then
            triggerEvent ''chatSubscription'' (JObj [
              (''type'', JStr ''subscription''),
              (''channelId'', channel_json s),
              (''userId'', field message ''userId''),
              (''nickname'', field message ''nickname''),
              (''message'', field message ''content''),
              (''months'', js_or (field message ''months'') (JNum 1)),
              (''tier'', js_or (field message ''tier'') (JNum 1)),
              (''tierName'', js_or (field message ''tierName'') (JStr default_tierName)),
              (''badges'', js_or (field message ''badges'') (JArr [])),
              (''timestamp'', js_or (field message ''timestamp'') (JNum (now s)))]) s
          else if t = JStr ''NOTICE'' then
            triggerEvent ''chatNotice'' (JObj [
              (''type'', JStr ''notice''),
              (''channelId'', channel_json s),
              (''message'', field message ''content''),
              (''noticeType'', js_or (field message ''noticeType'') (JStr ''NORMAL'')),
              (''timestamp'', js_or (field message ''timestamp'') (JNum (now s)))]) s
          else (Inr (), s))"

subsection \<open>Connect and disconnect\<close>

text \<open>
  \<open>connectChat\<close> from \<open>this.chatChannelId = channelId\<close> on: the channel id is stored,
  then the call waits for \<open>_getChatAccessToken\<close>. The request in flight is recorded
  with the channel id and the promise of the call; its outcome arrives later
  (\<open>token_fetched\<close>).
\<close>

definition connect_rest :: "string \<Rightarrow> nat \<Rightarrow> chzzk \<Rightarrow> chzzk" where
  "connect_rest channelId p s =
     s\<lparr>chatChannelId := Some channelId, fetches := fetches s @ [(channelId, p, True)]\<rparr>"

definition resume :: "continuation \<Rightarrow> chzzk \<Rightarrow> chzzk" where
  "resume k s =
     (case k of
        ResolveDisconnect q \<Rightarrow> settle q Resolved s
      | ResumeConnect channelId p \<Rightarrow> connect_rest channelId p s)"

text \<open>
  The body of \<open>disconnectChat\<close>; \<open>k\<close> is what waits for its promise. With an open
  socket the promise resolves in the \<open>onclose\<close> handler installed here, after
  \<open>close()\<close> has put the socket in state CLOSING.
\<close>

definition disconnectChat :: "continuation \<Rightarrow> chzzk \<Rightarrow> chzzk" where
  "disconnectChat k s =
     (case chatSocket s of
        None \<Rightarrow> resume k s
      | Some r \<Rightarrow>
          let s1 = cleanupChatConnection s in
          if ready (sockets s1 ! r) = OPEN then
            s1\<lparr>sockets := (sockets s1)[r := (sockets s1 ! r)
                   \<lparr>onclose := DisconnectOnClose k, ready := CLOSING\<rparr>]\<rparr>
          else resume k (s1\<lparr>chatSocket := None\<rparr>))"

definition connectChat :: "string \<Rightarrow> chzzk \<Rightarrow> chzzk" where
  "connectChat channelId s =
     (let (p, s1) = new_promise s in
      if channelId = [] then settle p (Rejected ChannelIdRequired) s1
      else if chatSocket s1 \<noteq> None then disconnectChat (ResumeConnect channelId p) s1
      else connect_rest channelId p s1)"

text \<open>A call of \<open>disconnectChat()\<close> by the user of the library.\<close>

definition call_disconnectChat :: "chzzk \<Rightarrow> chzzk" where
  "call_disconnectChat s = (let (q, s1) = new_promise s in disconnectChat (ResolveDisconnect q) s1)"

text \<open>
  The outcome of the chat-token request number \<open>i\<close>: \<open>_getChatAccessToken\<close> threw
  \<open>e\<close> (then the \<open>catch\<close> of \<open>connectChat\<close> rethrows through
  \<open>_handleApiError\<close>), or it returned a token. With a token the promise executor runs:
  \<open>new WebSocket\<close> (a throw there is passed to \<open>reject\<close>), then the four handlers
  are installed on the new socket.
\<close>

definition token_fetched :: "nat \<Rightarrow> js_error + json \<Rightarrow> chzzk \<Rightarrow> chzzk" where
  "token_fetched i outcome s =
     (if i < length (fetches s) \<and> snd (snd (fetches s ! i)) then
        (let channelId = fst (fetches s ! i);
             p = fst (snd (fetches s ! i));
             s1 = s\<lparr>fetches := (fetches s)[i := (channelId, p, False)]\<rparr>
         in case outcome of
              Inl e \<Rightarrow> settle p (Rejected (ApiError ''connectChat'' e)) s1
            | Inr chatAccessToken \<Rightarrow>
                if \<not> websocket_defined s1
                then settle p (Rejected (ReferenceError ''WebSocket'')) s1
                else s1\<lparr>chatSocket := Some (length (sockets s1)),
                        sockets := sockets s1 @
                          [\<lparr>ready = CONNECTING, ws_channelId = channelId,
                            ws_token = chatAccessToken, ws_promise = p,
                            onclose = ReconnectOnClose channelId, frames = []\<rparr>]\<rparr>)
      else s)"

subsection \<open>Transport events\<close>

text \<open>
  The transport is the platform's WebSocket: it sets \<open>readyState\<close> and then calls the
  handler installed on the socket. These functions are the handlers of the source, run
  on socket \<open>r\<close>.
\<close>

definition socket_open :: "nat \<Rightarrow> chzzk \<Rightarrow> chzzk" where
  "socket_open r s =
     (if r < length (sockets s) \<and> ready (sockets s ! r) = CONNECTING then
        (let w = sockets s ! r;
             s1 = s\<lparr>sockets := (sockets s)[r := w\<lparr>ready := OPEN\<rparr>]\<rparr>;
             s2 = sendChatAuthMessage (ws_token w) s1;
             s3 = startChatHeartbeat s2;
             s4 = snd (triggerEvent ''chatConnected'' (JObj [(''channelId'', JStr (ws_channelId w))]) s3)
         in settle (ws_promise w) Resolved s4)
      else s)"

definition socket_error :: "nat \<Rightarrow> chzzk \<Rightarrow> chzzk" where
  "socket_error r s =
     (if r < length (sockets s) \<and> ready (sockets s ! r) \<noteq> CLOSED then
        (let w = sockets s ! r;
             s1 = snd (triggerEvent ''chatError''
                    (JObj [(''error'', JObj [(''type'', JStr ''error''), (''target'', JNum (int r))])]) s)
         in settle (ws_promise w) (Rejected (TransportError r)) s1)
      else s)"

text \<open>
  The \<open>onclose\<close> handler of \<open>connectChat\<close>: cleanup, the event, then the reconnect
  timer with delay \<open>1000 * Math.pow(2, this.chatReconnectAttempts)\<close>.
\<close>

definition reconnect_onclose :: "string \<Rightarrow> int \<Rightarrow> string \<Rightarrow> chzzk \<Rightarrow> chzzk" where
  "reconnect_onclose channelId code reason s =
     (let s1 = cleanupChatConnection s;
          s2 = snd (triggerEvent ''chatDisconnected''
                 (JObj [(''channelId'', JStr channelId), (''code'', JNum code),
                        (''reason'', JStr reason)]) s1)
      in if chatReconnectAttempts s2 < chatMaxReconnectAttempts s2 then
           (let n = Suc (chatReconnectAttempts s2)
            in s2\<lparr>chatReconnectAttempts := n,
                   timeouts := timeouts s2 @ [(1000 * 2 ^ n, channelId)],
                   scheduled := scheduled s2 @ [1000 * 2 ^ n]\<rparr>)
         else s2)"

definition socket_close :: "nat \<Rightarrow> int \<Rightarrow> string \<Rightarrow> chzzk \<Rightarrow> chzzk" where
  "socket_close r code reason s =
     (if r < length (sockets s) \<and> ready (sockets s ! r) \<noteq> CLOSED then
        (let w = sockets s ! r;
             s1 = s\<lparr>sockets := (sockets s)[r := w\<lparr>ready := CLOSED\<rparr>]\<rparr>
         in case onclose w of
              ReconnectOnClose channelId \<Rightarrow> reconnect_onclose channelId code reason s1
            | DisconnectOnClose k \<Rightarrow> resume k (s1\<lparr>chatSocket := None\<rparr>))
      else s)"

text \<open>
  The \<open>onmessage\<close> handler. \<open>parsed\<close> is what \<open>JSON.parse(event.data)\<close> gives
  (\<open>None\<close>: it threw); any throw inside the \<open>try\<close> becomes a \<open>chatError\<close> event.
\<close>

definition socket_message :: "nat \<Rightarrow> string \<Rightarrow> json option \<Rightarrow> chzzk \<Rightarrow> chzzk" where
  "socket_message r raw parsed s =
     (if r < length (sockets s) \<and> ready (sockets s ! r) \<in> {OPEN, CLOSING} then
        (case parsed of
           None \<Rightarrow>
             snd (triggerEvent ''chatError''
                    (JObj [(''error'', JStr ''SyntaxError''), (''rawMessage'', JStr raw)]) s)
         | Some message \<Rightarrow>
             (case handleChatMessage message s of
                (Inl e, s1) \<Rightarrow>
                  snd (triggerEvent ''chatError''
                         (JObj [(''error'', JStr ''TypeError''), (''rawMessage'', JStr raw)]) s1)
              | (Inr _, s1) \<Rightarrow> s1))
      else s)"

text \<open>
  The callback of a pending reconnect timer: \<open>this.connectChat(channelId).catch(() => {})\<close>.
\<close>

definition timer_fired :: "nat \<Rightarrow> chzzk \<Rightarrow> chzzk" where
  "timer_fired i s =
     (if i < length (timeouts s) then
        connectChat (snd (timeouts s ! i))
          (s\<lparr>timeouts := take i (timeouts s) @ drop (Suc i) (timeouts s)\<rparr>)
      else s)"

subsection \<open>Runs\<close>

text \<open>
  What can happen to a client, one step at a time: calls of the public methods, and the
  callbacks the runtime delivers.
\<close>

datatype action =
    On string handler
  | Off string handler
  | Once string handler
  | CallUnsubscribe unsubscribe
  | ConnectChat string
  | DisconnectChat
  | TokenFetched nat "js_error + json"
  | SocketOpen nat
  | SocketError nat
  | SocketClose nat int string
  | SocketMessage nat string "json option"
  | TimerFired nat
  | HeartbeatTick nat
  | ClockAdvance nat

fun step :: "action \<Rightarrow> chzzk \<Rightarrow> chzzk" where
  "step (On n h) s = snd (on n h s)"
| "step (Off n h) s = snd (off n h s)"
| "step (Once n h) s = snd (once n h s)"
| "step (CallUnsubscribe u) s = snd (call_unsubscribe u s)"
| "step (ConnectChat c) s = connectChat c s"
| "step DisconnectChat s = call_disconnectChat s"
| "step (TokenFetched i outcome) s = token_fetched i outcome s"
| "step (SocketOpen r) s = socket_open r s"
| "step (SocketError r) s = socket_error r s"
| "step (SocketClose r code reason) s = socket_close r code reason s"
| "step (SocketMessage r raw parsed) s = socket_message r raw parsed s"
| "step (TimerFired i) s = timer_fired i s"
| "step (HeartbeatTick h) s = heartbeat_tick h s"
| "step (ClockAdvance ms) s = s\<lparr>now := now s + int ms\<rparr>"

fun run :: "action list \<Rightarrow> chzzk \<Rightarrow> chzzk" where
  "run [] s = s"
| "run (a # as) s = run as (step a s)"

section \<open>REST client\<close>

text \<open>
  \<open>_setTokenExpiry\<close>. A truthy \<open>expiresIn\<close> that is not a number is taken to give
  NaN, which the only reader of \<open>tokenExpiry\<close> treats like \<open>null\<close>.
\<close>

definition setTokenExpiry :: "json \<Rightarrow> chzzk \<Rightarrow> chzzk" where
  "setTokenExpiry expiresIn s =
     (if truthy expiresIn then
        s\<lparr>tokenExpiry :=
            (case expiresIn of
               JNum n \<Rightarrow> Some (now s + n * 1000 - 10 * 1000)
             | _ \<Rightarrow> None)\<rparr>
      else s)"

definition with_authorization :: "http_request \<Rightarrow> json \<Rightarrow> http_request" where
  "with_authorization req token = (case req of Request m u _ \<Rightarrow> Request m u token)"

text \<open>
  \<open>this.httpClient\<close> with its response interceptor, and \<open>refreshAccessToken\<close>, which
  posts through the same client. \<open>server k\<close> is the answer to the request number \<open>k\<close>
  sent by the client; a status outside 2xx, or no answer, rejects (the HTTP library's
  default). \<open>_handleApiError\<close> always throws: its error is \<open>ApiError\<close> with the name
  of the calling method and the error it was given. Both functions may call each other
  without end, so they take fuel and return \<open>None\<close> when it runs out.
\<close>

fun httpClient :: "nat \<Rightarrow> (nat \<Rightarrow> http_response) \<Rightarrow> http_request \<Rightarrow> chzzk
      \<Rightarrow> ((js_error + json) \<times> chzzk) option"
  and refreshAccessToken :: "nat \<Rightarrow> (nat \<Rightarrow> http_response) \<Rightarrow> chzzk
      \<Rightarrow> ((js_error + json) \<times> chzzk) option"
where
  "httpClient 0 server req s = None"
| "httpClient (Suc n) server req s =
     (let s1 = s\<lparr>requests := requests s @ [req]\<rparr> in
      case server (length (requests s)) of
        NoResponse \<Rightarrow> Some (Inl (AxiosError None), s1)
      | Response status body \<Rightarrow>
          if 200 \<le> status \<and> status < 300 then Some (Inr body, s1)
          else if autoRefreshToken s1 \<and> status = 401 \<and> truthy (refreshToken s1) then
            (case refreshAccessToken n server s1 of
               None \<Rightarrow> None
             | Some (Inl refreshError, s2) \<Rightarrow>
                 Some (Inl refreshError,
                   snd (triggerEvent ''tokenExpired''
                     (JObj [(''timestamp'', JNum (now s2)), (''error'', JStr ''refreshError'')]) s2))
             | Some (Inr _, s2) \<Rightarrow>
                 (let s3 = snd (triggerEvent ''tokenRefresh''
                                  (JObj [(''timestamp'', JNum (now s2))]) s2)
                  in httpClient n server (with_authorization req (accessToken s3)) s3))
          else Some (Inl (AxiosError (Some status)), s1))"
| "refreshAccessToken 0 server s = None"
| "refreshAccessToken (Suc n) server s =
     (if \<not> truthy (refreshToken s) then Some (Inl RefreshTokenMissing, s)
      else
        (case httpClient n server (Request ''POST'' ''/auth/v1/token'' JUndefined) s of
           None \<Rightarrow> None
         | Some (Inl e, s1) \<Rightarrow> Some (Inl (ApiError ''refreshAccessToken'' e), s1)
         | Some (Inr body, s1) \<Rightarrow>
             (case get_prop body ''accessToken'' of
                Inl e \<Rightarrow> Some (Inl (ApiError ''refreshAccessToken'' e), s1)
              | Inr a \<Rightarrow>
                  Some (Inr body,
                    setTokenExpiry (field body ''expiresIn'')
                      (s1\<lparr>accessToken := a, refreshToken := field body ''refreshToken''\<rparr>)))))"

definition ensureValidToken :: "nat \<Rightarrow> (nat \<Rightarrow> http_response) \<Rightarrow> chzzk
    \<Rightarrow> ((js_error + unit) \<times> chzzk) option" where
  "ensureValidToken n server s =
     (if \<not> truthy (accessToken s) then Some (Inl AccessTokenMissing, s)
      else if autoRefreshToken s \<and>
              (case tokenExpiry s of
                 None \<Rightarrow> False
               | Some e \<Rightarrow> e \<noteq> 0 \<and> truthy (refreshToken s) \<and>
                           now s + tokenRefreshThresholdMs s > e) then
        (case refreshAccessToken n server s of
           None \<Rightarrow> None
         | Some (Inl e, s1) \<Rightarrow> Some (Inl e, s1)
         | Some (Inr _, s1) \<Rightarrow> Some (Inr (), s1))
      else Some (Inr (), s))"

text \<open>\<open>_getChatAccessToken\<close>, the REST call the chat session makes.\<close>

definition getChatAccessToken :: "nat \<Rightarrow> (nat \<Rightarrow> http_response) \<Rightarrow> string \<Rightarrow> chzzk
    \<Rightarrow> ((js_error + json) \<times> chzzk) option" where
  "getChatAccessToken n server channelId s =
     (case ensureValidToken n server s of
        None \<Rightarrow> None
      | Some (Inl e, s1) \<Rightarrow> Some (Inl e, s1)
      | Some (Inr _, s1) \<Rightarrow>
          (case httpClient n server
                  (Request ''GET'' (''/open/v1/chats/access-token?channelId='' @ channelId)
                     (accessToken s1)) s1 of
             None \<Rightarrow> None
           | Some (Inl e, s2) \<Rightarrow> Some (Inl (ApiError ''getChatAccessToken'' e), s2)
           | Some (Inr body, s2) \<Rightarrow>
               if truthy body \<and> truthy (field body ''content'') \<and>
                  truthy (field (field body ''content'') ''accessToken'')
               then Some (Inr (field (field body ''content'') ''accessToken''), s2)
               else Some (Inl (ApiError ''getChatAccessToken'' ChatTokenNotFound), s2)))"

section \<open>Scenarios\<close>

text \<open>
  A client with two subscribers of \<open>chatMessage\<close>: the first registered with
  \<open>once\<close>, the second with \<open>on\<close>.
\<close>

definition once_then_on :: chzzk where
  "once_then_on =
     run [Once ''chatMessage'' (UserFn 1 False), On ''chatMessage'' (UserFn 2 False)]
       (constructor no_options True 0)"

text \<open>The same, where the function given to \<open>once\<close> throws.\<close>

definition raising_once_then_on :: chzzk where
  "raising_once_then_on =
     run [Once ''chatMessage'' (UserFn 1 True), On ''chatMessage'' (UserFn 2 False)]
       (constructor no_options True 0)"

text \<open>
  Inbound frames that carry only \<open>type\<close>, \<open>userId\<close>, \<open>nickname\<close> and
  \<open>content\<close>.
\<close>

definition bare_chat_frame :: json where
  "bare_chat_frame = JObj [(''type'', JStr ''CHAT''), (''userId'', JStr ''u1''),
     (''nickname'', JStr ''n''), (''content'', JStr ''hi'')]"

definition bare_subscription_frame :: json where
  "bare_subscription_frame = JObj [(''type'', JStr ''SUBSCRIPTION''), (''userId'', JStr ''u1''),
     (''nickname'', JStr ''n''), (''content'', JStr ''hi'')]"

text \<open>Chat scenarios, as runs from a fresh client. The chat-token request succeeds.\<close>

definition token_ok :: "js_error + json" where
  "token_ok = Inr (JStr ''chat-token'')"

definition fresh :: chzzk where
  "fresh = constructor no_options True 0"

text \<open>A connect call whose token has arrived: the socket exists and has not opened.\<close>

definition connecting :: "action list" where
  "connecting = [ConnectChat ''c1'', TokenFetched 0 token_ok]"

text \<open>The transport then fails before it opens: an error event, then the close event.\<close>

definition failed_first_connect :: "action list" where
  "failed_first_connect = connecting @ [SocketError 0, SocketClose 0 1006 '''']"

definition connected :: "action list" where
  "connected = connecting @ [SocketOpen 0]"

text \<open>The open session loses its transport; a reconnect timer is now pending.\<close>

definition closed_after_open :: "action list" where
  "closed_after_open = connected @ [SocketClose 0 1006 '''']"



text \<open>
  One closure of an open session followed by five reconnect attempts, each of which
  gets its token and then fails on the transport (error, close): six closures, and no
  call of \<open>disconnectChat\<close> by the user.
\<close>

definition six_closures :: "action list" where
  "six_closures =
     closed_after_open @
     [TimerFired 0, TokenFetched 1 token_ok, SocketError 1, SocketClose 1 1006 '''',
      TimerFired 0, TokenFetched 2 token_ok, SocketError 2, SocketClose 2 1006 '''',
      TimerFired 0, TokenFetched 3 token_ok, SocketError 3, SocketClose 3 1006 '''',
      TimerFired 0, TokenFetched 4 token_ok, SocketError 4, SocketClose 4 1006 '''',
      TimerFired 0, TokenFetched 5 token_ok, SocketError 5, SocketClose 5 1006 '''']"


text \<open>
  What is visible of a chat session from outside: the state of each socket, the current
  socket, the promises of the calls, the pending timers, the token requests and the
  names of the events emitted.
\<close>

definition observed :: "chzzk \<Rightarrow> readyState list \<times> nat option \<times> promise list \<times>
    (nat \<times> string) list \<times> (string \<times> nat \<times> bool) list \<times> string list" where
  "observed s = (map ready (sockets s), chatSocket s, promises s, timeouts s, fetches s,
                 map fst (emitted s))"






text \<open>
  The reconnect attempt number \<open>k\<close> after a closure: the pending timer fires, the
  chat-token request (number \<open>k\<close>) succeeds, and the new socket (number \<open>k\<close>) fails
  with an error event and a close event.
\<close>

definition failed_attempt :: "nat \<Rightarrow> action list" where
  "failed_attempt k =
     [TimerFired 0, TokenFetched k token_ok, SocketError k, SocketClose k 1006 '''']"

fun failed_attempts :: "nat \<Rightarrow> action list" where
  "failed_attempts 0 = []"
| "failed_attempts (Suc n) = failed_attempts n @ failed_attempt (Suc n)"

text \<open>
  The state of a session between two reconnect attempts, after \<open>k\<close> closures: the
  latest socket is closed, one reconnect timer is pending, and every delay scheduled so
  far was 2000 ms.
\<close>

definition between_attempts :: "nat \<Rightarrow> chzzk \<Rightarrow> bool" where
  "between_attempts k s \<longleftrightarrow>
     0 < k \<and> timeouts s = [(2000, ''c1'')] \<and> scheduled s = replicate k 2000 \<and>
     length (fetches s) = k \<and> length (sockets s) = k \<and> chatSocket s = Some (k - 1) \<and>
     ready (sockets s ! (k - 1)) = CLOSED \<and> websocket_defined s \<and>
     chatMaxReconnectAttempts s = 5"

section \<open>What a dispatch changes\<close>

lemma off_only: "\<exists>eh. snd (off n h s) = s\<lparr>eventHandlers := eh\<rparr>"
proof (cases "lookup_handlers s n")
  case Undefined
  then have "snd (off n h s) = s\<lparr>eventHandlers := eventHandlers s\<rparr>" by (simp add: off_def)
  then show ?thesis by blast
next
  case Inherited
  then have "snd (off n h s) = s\<lparr>eventHandlers := eventHandlers s\<rparr>" by (simp add: off_def)
  then show ?thesis by blast
next
  case (OwnArray hs)
  then show ?thesis by (auto simp: off_def)
qed

lemma off_dom: "dom (eventHandlers (snd (off n h s))) = dom (eventHandlers s)"
  by (auto simp: off_def lookup_handlers_def split: option.splits if_splits)

lemma on_dom: "dom (eventHandlers (snd (on n h s))) = dom (eventHandlers s)"
  by (auto simp: on_def lookup_handlers_def split: option.splits if_splits)

lemma once_dom: "dom (eventHandlers (snd (once n h s))) = dom (eventHandlers s)"
  by (simp add: once_def on_dom)

lemma call_handler_only:
  "\<exists>eh iv. snd (call_handler h d s) = s\<lparr>eventHandlers := eh, invoked := iv\<rparr>"
proof (induction h arbitrary: s)
  case (UserFn i raises)
  have "snd (call_handler (UserFn i raises) d s) =
        s\<lparr>eventHandlers := eventHandlers s, invoked := invoked s @ [(UserFn i raises, d)]\<rparr>"
    by simp
  then show ?case by blast
next
  case (OnceHandler i n h)
  let ?s0 = "s\<lparr>invoked := invoked s @ [(OnceHandler i n h, d)]\<rparr>"
  obtain eh where o: "snd (off n (OnceHandler i n h) ?s0) = ?s0\<lparr>eventHandlers := eh\<rparr>"
    using off_only by blast
  show ?case
  proof (cases "fst (off n (OnceHandler i n h) ?s0)")
    case (Inl e)
    then have "snd (call_handler (OnceHandler i n h) d s) = snd (off n (OnceHandler i n h) ?s0)"
      by (auto split: prod.splits)
    with o have "snd (call_handler (OnceHandler i n h) d s) =
       s\<lparr>eventHandlers := eh, invoked := invoked s @ [(OnceHandler i n h, d)]\<rparr>" by simp
    then show ?thesis by blast
  next
    case (Inr u)
    then have c: "snd (call_handler (OnceHandler i n h) d s) =
        snd (call_handler h d (snd (off n (OnceHandler i n h) ?s0)))"
      by (auto split: prod.splits)
    obtain eh' iv' where "snd (call_handler h d (snd (off n (OnceHandler i n h) ?s0))) =
        (snd (off n (OnceHandler i n h) ?s0))\<lparr>eventHandlers := eh', invoked := iv'\<rparr>"
      using OnceHandler.IH by blast
    with c o have "snd (call_handler (OnceHandler i n h) d s) =
        s\<lparr>eventHandlers := eh', invoked := iv'\<rparr>" by simp
    then show ?thesis by blast
  qed
qed

lemma call_handler_dom: "dom (eventHandlers (snd (call_handler h d s))) = dom (eventHandlers s)"
proof (induction h arbitrary: s)
  case (UserFn i raises)
  show ?case by simp
next
  case (OnceHandler i n h)
  let ?s0 = "s\<lparr>invoked := invoked s @ [(OnceHandler i n h, d)]\<rparr>"
  have d0: "dom (eventHandlers (snd (off n (OnceHandler i n h) ?s0))) = dom (eventHandlers s)"
    using off_dom [of n "OnceHandler i n h" ?s0] by simp
  show ?case
  proof (cases "fst (off n (OnceHandler i n h) ?s0)")
    case (Inl e)
    then have "snd (call_handler (OnceHandler i n h) d s) = snd (off n (OnceHandler i n h) ?s0)"
      by (auto split: prod.splits)
    with d0 show ?thesis by simp
  next
    case (Inr u)
    then have c: "snd (call_handler (OnceHandler i n h) d s) =
        snd (call_handler h d (snd (off n (OnceHandler i n h) ?s0)))"
      by (auto split: prod.splits)
    show ?thesis unfolding c using OnceHandler.IH d0 by simp
  qed
qed

lemma trigger_from_only:
  "\<exists>eh iv co. trigger_from i n d s = s\<lparr>eventHandlers := eh, invoked := iv, console := co\<rparr>"
proof (induction i n d s rule: trigger_from.induct)
  case (1 i n d s)
  have triv: "s = s\<lparr>eventHandlers := eventHandlers s, invoked := invoked s, console := console s\<rparr>"
    by simp
  show ?case
  proof (cases "eventHandlers s n")
    case None
    then have "trigger_from i n d s = s" by simp
    with triv show ?thesis by metis
  next
    case (Some hs)
    show ?thesis
    proof (cases "i < length hs")
      case False
      with Some have "trigger_from i n d s = s" by simp
      with triv show ?thesis by metis
    next
      case True
      obtain r s' where ch: "call_handler (hs ! i) d s = (r, s')" by (cases "call_handler (hs ! i) d s")
      obtain eh iv where s': "s' = s\<lparr>eventHandlers := eh, invoked := iv\<rparr>"
        using call_handler_only [of "hs ! i" d s] ch by auto
      show ?thesis
      proof (cases r)
        case (Inl e)
        from "1.IH"(1) [OF Some True ch [symmetric] Inl]
        obtain eh' iv' co' where "trigger_from (Suc i) n d (s'\<lparr>console := console s' @ [(n, e)]\<rparr>) =
            (s'\<lparr>console := console s' @ [(n, e)]\<rparr>)\<lparr>eventHandlers := eh', invoked := iv', console := co'\<rparr>"
          by blast
        moreover have "trigger_from i n d s = trigger_from (Suc i) n d (s'\<lparr>console := console s' @ [(n, e)]\<rparr>)"
          using Some True ch Inl by simp
        ultimately have "trigger_from i n d s = s\<lparr>eventHandlers := eh', invoked := iv', console := co'\<rparr>"
          using s' by simp
        then show ?thesis by blast
      next
        case (Inr u)
        from "1.IH"(2) [OF Some True ch [symmetric] Inr]
        obtain eh' iv' co' where "trigger_from (Suc i) n d s' =
            s'\<lparr>eventHandlers := eh', invoked := iv', console := co'\<rparr>"
          by blast
        moreover have "trigger_from i n d s = trigger_from (Suc i) n d s'"
          using Some True ch Inr by simp
        ultimately have "trigger_from i n d s = s\<lparr>eventHandlers := eh', invoked := iv', console := co'\<rparr>"
          using s' by simp
        then show ?thesis by blast
      qed
    qed
  qed
qed

lemma trigger_from_dom: "dom (eventHandlers (trigger_from i n d s)) = dom (eventHandlers s)"
proof (induction i n d s rule: trigger_from.induct)
  case (1 i n d s)
  show ?case
  proof (cases "eventHandlers s n")
    case None
    then show ?thesis by simp
  next
    case (Some hs)
    show ?thesis
    proof (cases "i < length hs")
      case False
      with Some show ?thesis by simp
    next
      case True
      obtain r s' where ch: "call_handler (hs ! i) d s = (r, s')" by (cases "call_handler (hs ! i) d s")
      have ds': "dom (eventHandlers s') = dom (eventHandlers s)"
        using call_handler_dom [of "hs ! i" d s] ch by simp
      show ?thesis
      proof (cases r)
        case (Inl e)
        have "trigger_from i n d s = trigger_from (Suc i) n d (s'\<lparr>console := console s' @ [(n, e)]\<rparr>)"
          using Some True ch Inl by simp
        with "1.IH"(1) [OF Some True ch [symmetric] Inl] ds' show ?thesis by simp
      next
        case (Inr u)
        have "trigger_from i n d s = trigger_from (Suc i) n d s'"
          using Some True ch Inr by simp
        with "1.IH"(2) [OF Some True ch [symmetric] Inr] ds' show ?thesis by simp
      qed
    qed
  qed
qed

lemma triggerEvent_only:
  "\<exists>eh iv co em. snd (triggerEvent n d s) =
     s\<lparr>eventHandlers := eh, invoked := iv, console := co, emitted := em\<rparr>"
proof (cases "lookup_handlers s n")
  case (OwnArray hs)
  let ?s0 = "s\<lparr>emitted := emitted s @ [(n, d)]\<rparr>"
  obtain eh iv co where "trigger_from 0 n d ?s0 = ?s0\<lparr>eventHandlers := eh, invoked := iv, console := co\<rparr>"
    using trigger_from_only by blast
  with OwnArray have "snd (triggerEvent n d s) =
      s\<lparr>eventHandlers := eh, invoked := iv, console := co, emitted := emitted s @ [(n, d)]\<rparr>"
    by (simp add: triggerEvent_def)
  then show ?thesis by blast
next
  case Undefined
  then have "snd (triggerEvent n d s) = s\<lparr>eventHandlers := eventHandlers s, invoked := invoked s,
      console := console s, emitted := emitted s\<rparr>"
    by (simp add: triggerEvent_def)
  then show ?thesis by blast
next
  case Inherited
  then have "snd (triggerEvent n d s) = s\<lparr>eventHandlers := eventHandlers s, invoked := invoked s,
      console := console s, emitted := emitted s\<rparr>"
    by (simp add: triggerEvent_def)
  then show ?thesis by blast
qed

lemma triggerEvent_frame [simp]:
  "accessToken (snd (triggerEvent n d s)) = accessToken s"
  "refreshToken (snd (triggerEvent n d s)) = refreshToken s"
  "autoRefreshToken (snd (triggerEvent n d s)) = autoRefreshToken s"
  "tokenExpiry (snd (triggerEvent n d s)) = tokenExpiry s"
  "tokenRefreshThresholdMs (snd (triggerEvent n d s)) = tokenRefreshThresholdMs s"
  "chatSocket (snd (triggerEvent n d s)) = chatSocket s"
  "chatChannelId (snd (triggerEvent n d s)) = chatChannelId s"
  "chatHeartbeatInterval (snd (triggerEvent n d s)) = chatHeartbeatInterval s"
  "chatReconnectAttempts (snd (triggerEvent n d s)) = chatReconnectAttempts s"
  "chatMaxReconnectAttempts (snd (triggerEvent n d s)) = chatMaxReconnectAttempts s"
  "sockets (snd (triggerEvent n d s)) = sockets s"
  "websocket_defined (snd (triggerEvent n d s)) = websocket_defined s"
  "promises (snd (triggerEvent n d s)) = promises s"
  "timeouts (snd (triggerEvent n d s)) = timeouts s"
  "scheduled (snd (triggerEvent n d s)) = scheduled s"
  "intervals (snd (triggerEvent n d s)) = intervals s"
  "interval_count (snd (triggerEvent n d s)) = interval_count s"
  "fetches (snd (triggerEvent n d s)) = fetches s"
  "closures (snd (triggerEvent n d s)) = closures s"
  "now (snd (triggerEvent n d s)) = now s"
  "requests (snd (triggerEvent n d s)) = requests s"
proof -
  obtain eh iv co em where eq: "snd (triggerEvent n d s) =
      s\<lparr>eventHandlers := eh, invoked := iv, console := co, emitted := em\<rparr>"
    using triggerEvent_only by blast
  show "accessToken (snd (triggerEvent n d s)) = accessToken s"
    and "refreshToken (snd (triggerEvent n d s)) = refreshToken s"
    and "autoRefreshToken (snd (triggerEvent n d s)) = autoRefreshToken s"
    and "tokenExpiry (snd (triggerEvent n d s)) = tokenExpiry s"
    and "tokenRefreshThresholdMs (snd (triggerEvent n d s)) = tokenRefreshThresholdMs s"
    and "chatSocket (snd (triggerEvent n d s)) = chatSocket s"
    and "chatChannelId (snd (triggerEvent n d s)) = chatChannelId s"
    and "chatHeartbeatInterval (snd (triggerEvent n d s)) = chatHeartbeatInterval s"
    and "chatReconnectAttempts (snd (triggerEvent n d s)) = chatReconnectAttempts s"
    and "chatMaxReconnectAttempts (snd (triggerEvent n d s)) = chatMaxReconnectAttempts s"
    and "sockets (snd (triggerEvent n d s)) = sockets s"
    and "websocket_defined (snd (triggerEvent n d s)) = websocket_defined s"
    and "promises (snd (triggerEvent n d s)) = promises s"
    and "timeouts (snd (triggerEvent n d s)) = timeouts s"
    and "scheduled (snd (triggerEvent n d s)) = scheduled s"
    and "intervals (snd (triggerEvent n d s)) = intervals s"
    and "interval_count (snd (triggerEvent n d s)) = interval_count s"
    and "fetches (snd (triggerEvent n d s)) = fetches s"
    and "closures (snd (triggerEvent n d s)) = closures s"
    and "now (snd (triggerEvent n d s)) = now s"
    and "requests (snd (triggerEvent n d s)) = requests s"
    by (simp_all add: eq)
qed

lemma triggerEvent_dom [simp]:
  "dom (eventHandlers (snd (triggerEvent n d s))) = dom (eventHandlers s)"
  by (cases "lookup_handlers s n")
    (simp_all add: triggerEvent_def trigger_from_dom del: trigger_from.simps)

lemma triggerEvent_emitted:
  "emitted (snd (triggerEvent n d s)) =
     (if eventHandlers s n = None then emitted s else emitted s @ [(n, d)])"
proof (cases "eventHandlers s n")
  case None
  then show ?thesis by (simp add: triggerEvent_def lookup_handlers_def)
next
  case (Some hs)
  let ?s0 = "s\<lparr>emitted := emitted s @ [(n, d)]\<rparr>"
  obtain eh iv co where "trigger_from 0 n d ?s0 = ?s0\<lparr>eventHandlers := eh, invoked := iv, console := co\<rparr>"
    using trigger_from_only by blast
  with Some show ?thesis by (simp add: triggerEvent_def lookup_handlers_def)
qed

section \<open>Event dispatcher: delivery\<close>

text \<open>
  When every handler registered for the name is a function of the caller, the emit
  calls each of them once, in registration order, whether or not some of them throw,
  and returns normally.
\<close>

lemma trigger_from_plain:
  assumes "eventHandlers s n = Some hs" and "\<forall>h \<in> set hs. \<exists>i raises. h = UserFn i raises"
  shows "invoked (trigger_from k n d s) = invoked s @ map (\<lambda>h. (h, d)) (drop k hs) \<and>
         eventHandlers (trigger_from k n d s) = eventHandlers s"
  using assms
proof (induction "length hs - k" arbitrary: k s)
  case 0
  then have "\<not> k < length hs" by simp
  with 0 show ?case by simp
next
  case (Suc m)
  then have k: "k < length hs" by simp
  then obtain i raises where h: "hs ! k = UserFn i raises"
    using Suc.prems(2) nth_mem by blast
  let ?s1 = "s\<lparr>invoked := invoked s @ [(UserFn i raises, d)]\<rparr>"
  let ?s2 = "if raises then ?s1\<lparr>console := console ?s1 @ [(n, HandlerError i)]\<rparr> else ?s1"
  have st: "trigger_from k n d s = trigger_from (Suc k) n d ?s2"
    using Suc.prems(1) k h by (subst trigger_from.simps) simp
  have e2: "eventHandlers ?s2 n = Some hs" "eventHandlers ?s2 = eventHandlers s"
    "invoked ?s2 = invoked s @ [(hs ! k, d)]"
    using Suc.prems(1) h by simp_all
  have m: "m = length hs - Suc k" using Suc.hyps(2) by simp
  from Suc.hyps(1) [OF m e2(1) Suc.prems(2)] e2 st
  have "invoked (trigger_from k n d s) = (invoked s @ [(hs ! k, d)]) @ map (\<lambda>h. (h, d)) (drop (Suc k) hs)"
    and "eventHandlers (trigger_from k n d s) = eventHandlers s"
    by simp_all
  moreover have "drop k hs = hs ! k # drop (Suc k) hs" using k by (simp add: Cons_nth_drop_Suc)
  ultimately show ?case by simp
qed

lemma triggerEvent_plain:
  assumes "eventHandlers s n = Some hs" and "\<forall>h \<in> set hs. \<exists>i raises. h = UserFn i raises"
  shows "fst (triggerEvent n d s) = Inr () \<and>
         invoked (snd (triggerEvent n d s)) = invoked s @ map (\<lambda>h. (h, d)) hs \<and>
         eventHandlers (snd (triggerEvent n d s)) = eventHandlers s"
proof -
  let ?s0 = "s\<lparr>emitted := emitted s @ [(n, d)]\<rparr>"
  have "eventHandlers ?s0 n = Some hs" using assms(1) by simp
  from trigger_from_plain [OF this assms(2), of 0 d] assms(1)
  show ?thesis by (simp add: triggerEvent_def lookup_handlers_def del: trigger_from.simps)
qed

text \<open>
  C7. The claim: an emit invokes exactly the handlers registered for the name when the
  emit starts, in registration order, also when a handler such as a \<open>once\<close> wrapper
  deregisters during the emit. On the client \<open>once_then_on\<close> the handlers registered
  for \<open>chatMessage\<close> when the emit starts are the \<open>once\<close> wrapper and function 2.
  The emit invokes the wrapper and, through it, function 1, and nothing else: the
  wrapper has spliced itself out of the array the loop is iterating, so the loop's
  next index is past the end and function 2, still registered, is never called.
\<close>

theorem emit_after_once_skips_next_handler:
  "eventHandlers once_then_on ''chatMessage'' =
     Some [OnceHandler 0 ''chatMessage'' (UserFn 1 False), UserFn 2 False] \<and>
   invoked once_then_on = [] \<and>
   invoked (snd (triggerEvent ''chatMessage'' (JStr ''hi'') once_then_on)) =
     [(OnceHandler 0 ''chatMessage'' (UserFn 1 False), JStr ''hi''),
      (UserFn 1 False, JStr ''hi'')] \<and>
   eventHandlers (snd (triggerEvent ''chatMessage'' (JStr ''hi'') once_then_on)) ''chatMessage'' =
     Some [UserFn 2 False]"
  by (simp add: once_then_on_def triggerEvent_def on_def once_def off_def lookup_handlers_def
      constructor_def event_names_def object_prototype_keys_def)

text \<open>
  C8. The claim: when a registered handler raises during an emit, the exception is
  caught and logged, never re-raised, and every remaining registered handler for the
  event is still invoked. On the client \<open>raising_once_then_on\<close> the emit returns
  normally and the exception of function 1 is logged, but function 2, registered after
  the raising \<open>once\<close> subscriber, is not invoked.
\<close>

theorem emit_after_raising_once_skips_next_handler:
  "fst (triggerEvent ''chatMessage'' (JStr ''hi'') raising_once_then_on) = Inr () \<and>
   console (snd (triggerEvent ''chatMessage'' (JStr ''hi'') raising_once_then_on)) =
     [(''chatMessage'', HandlerError 1)] \<and>
   invoked (snd (triggerEvent ''chatMessage'' (JStr ''hi'') raising_once_then_on)) =
     [(OnceHandler 0 ''chatMessage'' (UserFn 1 True), JStr ''hi''),
      (UserFn 1 True, JStr ''hi'')] \<and>
   eventHandlers (snd (triggerEvent ''chatMessage'' (JStr ''hi'') raising_once_then_on))
     ''chatMessage'' = Some [UserFn 2 False]"
  by (simp add: raising_once_then_on_def triggerEvent_def on_def once_def off_def
      lookup_handlers_def constructor_def event_names_def object_prototype_keys_def)

section \<open>Event dispatcher: registration\<close>

text \<open>No step of a run adds or removes a key of \<open>this.eventHandlers\<close>.\<close>

lemma settle_eh [simp]: "eventHandlers (settle p v s) = eventHandlers s"
  by (simp add: settle_def)

lemma cleanup_eh [simp]: "eventHandlers (cleanupChatConnection s) = eventHandlers s"
  by (simp add: cleanupChatConnection_def stopChatHeartbeat_def split: option.splits)

lemma resume_eh [simp]: "eventHandlers (resume k s) = eventHandlers s"
  by (simp add: resume_def connect_rest_def split: continuation.splits)

lemma disconnectChat_eh [simp]: "eventHandlers (disconnectChat k s) = eventHandlers s"
  by (simp add: disconnectChat_def Let_def split: option.splits)

lemma connectChat_eh [simp]: "eventHandlers (connectChat c s) = eventHandlers s"
  by (simp add: connectChat_def new_promise_def connect_rest_def)

lemma call_disconnectChat_eh [simp]: "eventHandlers (call_disconnectChat s) = eventHandlers s"
  by (simp add: call_disconnectChat_def new_promise_def)

lemma token_fetched_eh [simp]: "eventHandlers (token_fetched i outcome s) = eventHandlers s"
  by (simp add: token_fetched_def Let_def split: sum.splits)

lemma sendChatAuthMessage_eh [simp]: "eventHandlers (sendChatAuthMessage tok s) = eventHandlers s"
  by (simp add: sendChatAuthMessage_def send_def split: option.splits)

lemma startChatHeartbeat_eh [simp]: "eventHandlers (startChatHeartbeat s) = eventHandlers s"
  by (simp add: startChatHeartbeat_def stopChatHeartbeat_def Let_def split: option.splits)

lemma socket_open_dom: "dom (eventHandlers (socket_open r s)) = dom (eventHandlers s)"
  by (simp add: socket_open_def Let_def)

lemma socket_error_dom: "dom (eventHandlers (socket_error r s)) = dom (eventHandlers s)"
  by (simp add: socket_error_def Let_def)

lemma socket_close_dom: "dom (eventHandlers (socket_close r code reason s)) = dom (eventHandlers s)"
  by (simp add: socket_close_def reconnect_onclose_def Let_def split: onclose_handler.splits)

lemma handleChatMessage_dom: "dom (eventHandlers (snd (handleChatMessage m s))) = dom (eventHandlers s)"
  by (simp add: handleChatMessage_def split: sum.splits)

lemma socket_message_dom: "dom (eventHandlers (socket_message r raw parsed s)) = dom (eventHandlers s)"
proof (cases parsed)
  case None
  then show ?thesis by (simp add: socket_message_def)
next
  case (Some m)
  obtain res s1 where h: "handleChatMessage m s = (res, s1)" by (cases "handleChatMessage m s")
  then have "dom (eventHandlers s1) = dom (eventHandlers s)"
    using handleChatMessage_dom [of m s] by simp
  with Some h show ?thesis by (cases res) (simp_all add: socket_message_def)
qed

lemma timer_fired_eh [simp]: "eventHandlers (timer_fired i s) = eventHandlers s"
  by (simp add: timer_fired_def)

lemma heartbeat_tick_eh [simp]: "eventHandlers (heartbeat_tick h s) = eventHandlers s"
  by (simp add: heartbeat_tick_def send_def split: option.splits)

lemma step_dom: "dom (eventHandlers (step a s)) = dom (eventHandlers s)"
proof (cases a)
  case (CallUnsubscribe u)
  then show ?thesis by (cases u) (simp add: call_unsubscribe_def off_dom)
qed (simp_all add: on_dom off_dom once_dom socket_open_dom socket_error_dom socket_close_dom
      socket_message_dom)

lemma run_dom: "dom (eventHandlers (run acts s)) = dom (eventHandlers s)"
  by (induction acts arbitrary: s) (simp_all add: step_dom)

lemma constructor_dom: "dom (eventHandlers (constructor opts ws t)) = set event_names"
  by (simp add: constructor_def dom_map_of_conv_image_fst image_image)

lemma prototype_keys_unrecognized: "set object_prototype_keys \<inter> set event_names = {}"
  by (simp add: object_prototype_keys_def event_names_def)



section \<open>Inbound frames: defaults\<close>

text \<open>
  A SUBSCRIPTION frame without \<open>months\<close>, \<open>tier\<close> and \<open>tierName\<close>, received at
  time 1700 by a fresh client: the event carries the tier name of the source literal,
  which is not the string \<open>basic\<close>.
\<close>

theorem subscription_tierName_counterexample:
  "emitted (snd (handleChatMessage bare_subscription_frame (constructor no_options True 1700))) =
     [(''chatSubscription'', JObj [
        (''type'', JStr ''subscription''), (''channelId'', JNull), (''userId'', JStr ''u1''),
        (''nickname'', JStr ''n''), (''message'', JStr ''hi''), (''months'', JNum 1),
        (''tier'', JNum 1), (''tierName'', JStr default_tierName), (''badges'', JArr []),
        (''timestamp'', JNum 1700)])] \<and>
   default_tierName \<noteq> ''basic''"
  by (simp add: bare_subscription_frame_def handleChatMessage_def triggerEvent_def
      lookup_handlers_def constructor_def event_names_def field_def js_or_def default_tierName_def
      no_options_def channel_json_def)

text \<open>
  C6, amended. On every client reached from the constructor, a frame of a recognized
  type yields one event of the matching name, in which each optional field missing from
  the frame has its default: for CHAT, \<open>badges\<close> the empty list and
  \<open>timestamp\<close> the time of receipt, with \<open>message\<close> the frame's
  \<open>content\<close>; for SUBSCRIPTION, \<open>months\<close> 1, \<open>tier\<close> 1 and
  \<open>tierName\<close> the Korean literal of the source (\<open>default_tierName\<close>), not
  \<open>basic\<close>; for DONATION, \<open>currency\<close> KRW and \<open>isAnonymous\<close> false;
  for NOTICE, \<open>noticeType\<close> NORMAL.
\<close>

theorem inbound_frame_defaults:
  assumes "s = run acts (constructor opts ws t)"
  shows "(map_of kvs ''type'' = Some (JStr ''CHAT'') \<longrightarrow>
            (\<exists>ev. emitted (snd (handleChatMessage (JObj kvs) s)) = emitted s @ [(''chatMessage'', ev)] \<and>
                  field ev ''message'' = field (JObj kvs) ''content'' \<and>
                  (map_of kvs ''badges'' = None \<longrightarrow> field ev ''badges'' = JArr []) \<and>
                  (map_of kvs ''timestamp'' = None \<longrightarrow> field ev ''timestamp'' = JNum (now s)))) \<and>
         (map_of kvs ''type'' = Some (JStr ''SUBSCRIPTION'') \<longrightarrow>
            (\<exists>ev. emitted (snd (handleChatMessage (JObj kvs) s)) =
                    emitted s @ [(''chatSubscription'', ev)] \<and>
                  (map_of kvs ''months'' = None \<longrightarrow> field ev ''months'' = JNum 1) \<and>
                  (map_of kvs ''tier'' = None \<longrightarrow> field ev ''tier'' = JNum 1) \<and>
                  (map_of kvs ''tierName'' = None \<longrightarrow> field ev ''tierName'' = JStr default_tierName) \<and>
                  (map_of kvs ''badges'' = None \<longrightarrow> field ev ''badges'' = JArr []) \<and>
                  (map_of kvs ''timestamp'' = None \<longrightarrow> field ev ''timestamp'' = JNum (now s)))) \<and>
         (map_of kvs ''type'' = Some (JStr ''DONATION'') \<longrightarrow>
            (\<exists>ev. emitted (snd (handleChatMessage (JObj kvs) s)) = emitted s @ [(''chatDonation'', ev)] \<and>
                  (map_of kvs ''currency'' = None \<longrightarrow> field ev ''currency'' = JStr ''KRW'') \<and>
                  (map_of kvs ''isAnonymous'' = None \<longrightarrow> field ev ''isAnonymous'' = JBool False) \<and>
                  (map_of kvs ''badges'' = None \<longrightarrow> field ev ''badges'' = JArr []) \<and>
                  (map_of kvs ''timestamp'' = None \<longrightarrow> field ev ''timestamp'' = JNum (now s)))) \<and>
         (map_of kvs ''type'' = Some (JStr ''NOTICE'') \<longrightarrow>
            (\<exists>ev. emitted (snd (handleChatMessage (JObj kvs) s)) = emitted s @ [(''chatNotice'', ev)] \<and>
                  (map_of kvs ''noticeType'' = None \<longrightarrow> field ev ''noticeType'' = JStr ''NORMAL'') \<and>
                  (map_of kvs ''timestamp'' = None \<longrightarrow> field ev ''timestamp'' = JNum (now s))))"
proof -
  have d: "dom (eventHandlers s) = set event_names"
    using assms by (simp add: run_dom constructor_dom)
  have "''chatMessage'' \<in> set event_names" "''chatSubscription'' \<in> set event_names"
    "''chatDonation'' \<in> set event_names" "''chatNotice'' \<in> set event_names"
    by (simp_all add: event_names_def)
  with d have r: "eventHandlers s ''chatMessage'' \<noteq> None"
    "eventHandlers s ''chatSubscription'' \<noteq> None"
    "eventHandlers s ''chatDonation'' \<noteq> None"
    "eventHandlers s ''chatNotice'' \<noteq> None"
    by blast+
  have c: "map_of kvs ''type'' = Some (JStr ''CHAT'') \<longrightarrow>
            (\<exists>ev. emitted (snd (handleChatMessage (JObj kvs) s)) = emitted s @ [(''chatMessage'', ev)] \<and>
                  field ev ''message'' = field (JObj kvs) ''content'' \<and>
                  (map_of kvs ''badges'' = None \<longrightarrow> field ev ''badges'' = JArr []) \<and>
                  (map_of kvs ''timestamp'' = None \<longrightarrow> field ev ''timestamp'' = JNum (now s)))"
    using r(1) by (auto simp: handleChatMessage_def triggerEvent_emitted field_def js_or_def)
  have u: "map_of kvs ''type'' = Some (JStr ''SUBSCRIPTION'') \<longrightarrow>
            (\<exists>ev. emitted (snd (handleChatMessage (JObj kvs) s)) =
                    emitted s @ [(''chatSubscription'', ev)] \<and>
                  (map_of kvs ''months'' = None \<longrightarrow> field ev ''months'' = JNum 1) \<and>
                  (map_of kvs ''tier'' = None \<longrightarrow> field ev ''tier'' = JNum 1) \<and>
                  (map_of kvs ''tierName'' = None \<longrightarrow> field ev ''tierName'' = JStr default_tierName) \<and>
                  (map_of kvs ''badges'' = None \<longrightarrow> field ev ''badges'' = JArr []) \<and>
                  (map_of kvs ''timestamp'' = None \<longrightarrow> field ev ''timestamp'' = JNum (now s)))"
    using r(2) by (auto simp: handleChatMessage_def triggerEvent_emitted field_def js_or_def)
  have o: "map_of kvs ''type'' = Some (JStr ''DONATION'') \<longrightarrow>
            (\<exists>ev. emitted (snd (handleChatMessage (JObj kvs) s)) = emitted s @ [(''chatDonation'', ev)] \<and>
                  (map_of kvs ''currency'' = None \<longrightarrow> field ev ''currency'' = JStr ''KRW'') \<and>
                  (map_of kvs ''isAnonymous'' = None \<longrightarrow> field ev ''isAnonymous'' = JBool False) \<and>
                  (map_of kvs ''badges'' = None \<longrightarrow> field ev ''badges'' = JArr []) \<and>
                  (map_of kvs ''timestamp'' = None \<longrightarrow> field ev ''timestamp'' = JNum (now s)))"
    using r(3) by (auto simp: handleChatMessage_def triggerEvent_emitted field_def js_or_def)
  have n: "map_of kvs ''type'' = Some (JStr ''NOTICE'') \<longrightarrow>
            (\<exists>ev. emitted (snd (handleChatMessage (JObj kvs) s)) = emitted s @ [(''chatNotice'', ev)] \<and>
                  (map_of kvs ''noticeType'' = None \<longrightarrow> field ev ''noticeType'' = JStr ''NORMAL'') \<and>
                  (map_of kvs ''timestamp'' = None \<longrightarrow> field ev ''timestamp'' = JNum (now s)))"
    using r(4) by (auto simp: handleChatMessage_def triggerEvent_emitted field_def js_or_def)
  from c u o n show ?thesis by blast
qed

theorem inbound_frame_defaults_witness:
  "(\<exists>ev. emitted (snd (handleChatMessage bare_chat_frame once_then_on)) = [(''chatMessage'', ev)] \<and>
         field ev ''badges'' = JArr [] \<and> field ev ''timestamp'' = JNum 0 \<and>
         field ev ''message'' = JStr ''hi'') \<and>
   (\<exists>ev. emitted (snd (handleChatMessage bare_subscription_frame once_then_on)) =
           [(''chatSubscription'', ev)] \<and>
         field ev ''months'' = JNum 1 \<and> field ev ''tier'' = JNum 1 \<and>
         field ev ''tierName'' = JStr default_tierName)"
proof -
  have s: "once_then_on = run [Once ''chatMessage'' (UserFn 1 False), On ''chatMessage'' (UserFn 2 False)]
       (constructor no_options True 0)" by (simp add: once_then_on_def)
  have e: "emitted once_then_on = []" "now once_then_on = 0"
    by (simp_all add: once_then_on_def on_def once_def lookup_handlers_def constructor_def event_names_def)
  from inbound_frame_defaults [OF s, of "[(''type'', JStr ''CHAT''), (''userId'', JStr ''u1''),
     (''nickname'', JStr ''n''), (''content'', JStr ''hi'')]"]
    inbound_frame_defaults [OF s, of "[(''type'', JStr ''SUBSCRIPTION''), (''userId'', JStr ''u1''),
     (''nickname'', JStr ''n''), (''content'', JStr ''hi'')]"] e
  show ?thesis by (auto simp: bare_chat_frame_def bare_subscription_frame_def field_def)
qed

section \<open>Chat session: what stays fixed\<close>

lemmas chat_defs = connectChat_def call_disconnectChat_def disconnectChat_def resume_def
  connect_rest_def new_promise_def settle_def cleanupChatConnection_def stopChatHeartbeat_def
  token_fetched_def socket_error_def socket_close_def reconnect_onclose_def timer_fired_def

lemmas eval_defs = fresh_def token_ok_def constructor_def no_options_def event_names_def
  object_prototype_keys_def chat_defs socket_open_def sendChatAuthMessage_def send_def
  startChatHeartbeat_def triggerEvent_def lookup_handlers_def channel_json_def Let_def
  connecting_def connected_def closed_after_open_def observed_def

lemma on_max [simp]: "chatMaxReconnectAttempts (snd (on n h s)) = chatMaxReconnectAttempts s"
  by (simp add: on_def split: property.splits)

lemma off_max [simp]: "chatMaxReconnectAttempts (snd (off n h s)) = chatMaxReconnectAttempts s"
  by (simp add: off_def split: property.splits)

lemma settle_max [simp]: "chatMaxReconnectAttempts (settle p v s) = chatMaxReconnectAttempts s"
  by (simp add: settle_def)

lemma cleanup_max [simp]:
  "chatMaxReconnectAttempts (cleanupChatConnection s) = chatMaxReconnectAttempts s"
  by (simp add: cleanupChatConnection_def stopChatHeartbeat_def split: option.splits)

lemma resume_max [simp]: "chatMaxReconnectAttempts (resume k s) = chatMaxReconnectAttempts s"
  by (simp add: resume_def connect_rest_def split: continuation.splits)

lemma disconnectChat_max [simp]:
  "chatMaxReconnectAttempts (disconnectChat k s) = chatMaxReconnectAttempts s"
  by (simp add: disconnectChat_def Let_def split: option.splits)

lemma connectChat_max [simp]:
  "chatMaxReconnectAttempts (connectChat c s) = chatMaxReconnectAttempts s"
  by (simp add: connectChat_def new_promise_def connect_rest_def)

lemma call_disconnectChat_max [simp]:
  "chatMaxReconnectAttempts (call_disconnectChat s) = chatMaxReconnectAttempts s"
  by (simp add: call_disconnectChat_def new_promise_def)

lemma token_fetched_max [simp]:
  "chatMaxReconnectAttempts (token_fetched i outcome s) = chatMaxReconnectAttempts s"
  by (simp add: token_fetched_def Let_def split: sum.splits)

lemma socket_open_max [simp]:
  "chatMaxReconnectAttempts (socket_open r s) = chatMaxReconnectAttempts s"
  by (simp add: socket_open_def sendChatAuthMessage_def send_def startChatHeartbeat_def
      stopChatHeartbeat_def Let_def split: option.splits)

lemma socket_error_max [simp]:
  "chatMaxReconnectAttempts (socket_error r s) = chatMaxReconnectAttempts s"
  by (simp add: socket_error_def Let_def)

lemma socket_close_max [simp]:
  "chatMaxReconnectAttempts (socket_close r code reason s) = chatMaxReconnectAttempts s"
  by (simp add: socket_close_def reconnect_onclose_def Let_def split: onclose_handler.splits)

lemma handleChatMessage_max [simp]:
  "chatMaxReconnectAttempts (snd (handleChatMessage m s)) = chatMaxReconnectAttempts s"
  by (simp add: handleChatMessage_def split: sum.splits)

lemma socket_message_max [simp]:
  "chatMaxReconnectAttempts (socket_message r raw parsed s) = chatMaxReconnectAttempts s"
proof (cases parsed)
  case None
  then show ?thesis by (simp add: socket_message_def)
next
  case (Some m)
  obtain res s1 where h: "handleChatMessage m s = (res, s1)" by (cases "handleChatMessage m s")
  then have "chatMaxReconnectAttempts s1 = chatMaxReconnectAttempts s"
    using handleChatMessage_max [of m s] by simp
  with Some h show ?thesis by (cases res) (simp_all add: socket_message_def)
qed

lemma timer_fired_max [simp]:
  "chatMaxReconnectAttempts (timer_fired i s) = chatMaxReconnectAttempts s"
  by (simp add: timer_fired_def)

lemma heartbeat_tick_max [simp]:
  "chatMaxReconnectAttempts (heartbeat_tick h s) = chatMaxReconnectAttempts s"
  by (simp add: heartbeat_tick_def send_def split: option.splits)

lemma step_max: "chatMaxReconnectAttempts (step a s) = chatMaxReconnectAttempts s"
proof (cases a)
  case (CallUnsubscribe u)
  then show ?thesis by (cases u) (simp add: call_unsubscribe_def)
qed (simp_all add: once_def)

lemma run_max: "chatMaxReconnectAttempts (run acts s) = chatMaxReconnectAttempts s"
  by (induction acts arbitrary: s) (simp_all add: step_max)

lemma reconnect_onclose_schedules:
  assumes "0 < chatMaxReconnectAttempts s"
  shows "scheduled (reconnect_onclose c code reason s) = scheduled s @ [2000]"
    and "timeouts (reconnect_onclose c code reason s) = timeouts s @ [(2000, c)]"
    and "chatReconnectAttempts (reconnect_onclose c code reason s) = 1"
  using assms
  by (simp_all add: reconnect_onclose_def cleanupChatConnection_def stopChatHeartbeat_def Let_def
      split: option.splits)

section \<open>Chat session: reconnection\<close>

lemma run_append: "run (xs @ ys) s = run ys (run xs s)"
  by (induction xs arbitrary: s) simp_all

text \<open>
  Every failed reconnect attempt leaves the session as it found it, with one more
  delay of 2000 ms scheduled and a reconnect timer pending again: the attempts never
  stop and the delay never grows.
\<close>

lemma between_attempts_first: "between_attempts 1 (run closed_after_open fresh)"
  by (simp add: between_attempts_def eval_defs)

lemma between_attempts_next:
  assumes "between_attempts k s"
  shows "between_attempts (Suc k) (run (failed_attempt k) s)"
proof -
  from assms have k: "0 < k" and t: "timeouts s = [(2000, ''c1'')]"
    and sc: "scheduled s = replicate k 2000" and f: "length (fetches s) = k"
    and so: "length (sockets s) = k" and cs: "chatSocket s = Some (k - 1)"
    and rd: "ready (sockets s ! (k - 1)) = CLOSED" and wd: "websocket_defined s"
    and mx: "chatMaxReconnectAttempts s = 5"
    by (simp_all add: between_attempts_def)
  define s1 where "s1 = timer_fired 0 s"
  have s1: "timeouts s1 = []" "scheduled s1 = replicate k 2000"
    "fetches s1 = fetches s @ [(''c1'', length (promises s), True)]"
    "sockets s1 = sockets s" "chatSocket s1 = None" "websocket_defined s1"
    "chatMaxReconnectAttempts s1 = 5"
    using k t sc f so cs rd wd mx
    by (auto simp: s1_def chat_defs Let_def split: option.splits)
  define s2 where "s2 = token_fetched k token_ok s1"
  have s2: "timeouts s2 = []" "scheduled s2 = replicate k 2000"
    "length (fetches s2) = Suc k"
    "sockets s2 = sockets s @ [\<lparr>ready = CONNECTING, ws_channelId = ''c1'',
        ws_token = JStr ''chat-token'', ws_promise = length (promises s),
        onclose = ReconnectOnClose ''c1'', frames = []\<rparr>]"
    "chatSocket s2 = Some k" "websocket_defined s2" "chatMaxReconnectAttempts s2 = 5"
    using s1 f so by (simp_all add: s2_def token_fetched_def token_ok_def Let_def nth_append settle_def)
  define s3 where "s3 = socket_error k s2"
  have s3: "timeouts s3 = []" "scheduled s3 = replicate k 2000"
    "length (fetches s3) = Suc k" "sockets s3 = sockets s2"
    "chatSocket s3 = Some k" "websocket_defined s3" "chatMaxReconnectAttempts s3 = 5"
    using s2 so by (simp_all add: s3_def socket_error_def Let_def nth_append settle_def)
  define s4 where "s4 = socket_close k 1006 '''' s3"
  have s4: "timeouts s4 = [(2000, ''c1'')]" "scheduled s4 = replicate (Suc k) 2000"
    "length (fetches s4) = Suc k" "length (sockets s4) = Suc k"
    "chatSocket s4 = Some k" "ready (sockets s4 ! k) = CLOSED" "websocket_defined s4"
    "chatMaxReconnectAttempts s4 = 5"
    using s3 s2 so
    by (simp_all add: s4_def socket_close_def reconnect_onclose_def cleanupChatConnection_def
        stopChatHeartbeat_def Let_def nth_append replicate_append_same split: option.splits)
  have "run (failed_attempt k) s = s4"
    by (simp add: failed_attempt_def s4_def s3_def s2_def s1_def)
  with s4 show ?thesis by (simp add: between_attempts_def)
qed

lemma reconnects_without_end:
  "between_attempts (Suc n) (run (closed_after_open @ failed_attempts n) fresh)"
proof (induction n)
  case 0
  show ?case using between_attempts_first by simp
next
  case (Suc n)
  have "run (closed_after_open @ failed_attempts (Suc n)) fresh =
      run (failed_attempt (Suc n)) (run (closed_after_open @ failed_attempts n) fresh)"
    by (simp add: run_append)
  with between_attempts_next [OF Suc] show ?case by simp
qed

text \<open>
  C1. The claim: over consecutive closures with no \<open>disconnectChat\<close> call the
  \<open>onclose\<close> handling does not reset the reconnect counter, so the delays scheduled
  are 2000, 4000, 8000, 16000, 32000 ms and nothing is scheduled after the fifth failed
  attempt. On the run \<open>six_closures\<close> (one closure of an open session, then five
  failed reconnect attempts) the code schedules six reconnects, each after 2000 ms, and
  a reconnect timer is pending after the fifth failed attempt:
  \<open>_cleanupChatConnection\<close> sets the counter to 0 at the start of every \<open>onclose\<close>,
  so the test against \<open>chatMaxReconnectAttempts\<close> always passes and the exponent is
  always 1.
\<close>

theorem six_closures_delays:
  "scheduled (run six_closures fresh) = [2000, 2000, 2000, 2000, 2000, 2000] \<and>
   timeouts (run six_closures fresh) = [(2000, ''c1'')]"
proof -
  have "six_closures = closed_after_open @ failed_attempts 5"
    by (simp add: six_closures_def failed_attempt_def eval_nat_numeral)
  with reconnects_without_end [of 5] show ?thesis
    by (simp add: between_attempts_def eval_nat_numeral)
qed




section \<open>Chat session: failure of the first connect\<close>

text \<open>
  A first \<open>connectChat\<close> whose transport fails before it opens: the call is rejected
  with the transport's error, no \<open>chatConnected\<close> was emitted, and a reconnect timer
  is pending.
\<close>

theorem failed_first_connect_counterexample:
  "observed (run failed_first_connect fresh) =
     ([CLOSED], Some 0, [Rejected (TransportError 0)], [(2000, ''c1'')], [(''c1'', 0, False)],
      [''chatError'', ''chatDisconnected''])"
  by (simp add: failed_first_connect_def eval_defs)

text \<open>
  C4, amended. On every client reached from the constructor, for a socket created by
  \<open>connectChat\<close> that has not opened and whose call is still pending: the error event
  rejects the call with the transport's error and schedules nothing; the close event
  that follows schedules a reconnect for the channel of the call. The \<open>onclose\<close>
  handler is installed before the transport opens and does not look at whether it ever
  did.
\<close>

theorem closure_before_open_schedules_reconnect:
  assumes "s = run acts (constructor opts ws t)"
    and "r < length (sockets s)" and "ready (sockets s ! r) = CONNECTING"
    and "onclose (sockets s ! r) = ReconnectOnClose c"
    and "ws_promise (sockets s ! r) = p" and "p < length (promises s)"
    and "promises s ! p = Pending"
  shows "promises (socket_error r s) ! p = Rejected (TransportError r) \<and>
         timeouts (socket_error r s) = timeouts s \<and>
         (\<exists>delay. timeouts (socket_close r code reason (socket_error r s)) =
                    timeouts s @ [(delay, c)])"
proof -
  have m: "chatMaxReconnectAttempts s = 5"
    using assms(1) by (simp add: run_max constructor_def)
  show ?thesis
    using assms(2-) m
    by (auto simp: chat_defs Let_def split: option.splits)
qed

theorem closure_before_open_schedules_reconnect_witness:
  "promises (socket_error 0 (run connecting fresh)) ! 0 = Rejected (TransportError 0) \<and>
   timeouts (socket_error 0 (run connecting fresh)) = [] \<and>
   (\<exists>delay. timeouts (socket_close 0 1006 '''' (socket_error 0 (run connecting fresh))) =
              [(delay, ''c1'')])"
proof -
  have f: "sockets (run connecting fresh) =
        [\<lparr>ready = CONNECTING, ws_channelId = ''c1'', ws_token = JStr ''chat-token'',
          ws_promise = 0, onclose = ReconnectOnClose ''c1'', frames = []\<rparr>]"
      "promises (run connecting fresh) = [Pending]"
      "timeouts (run connecting fresh) = []"
    by (simp_all add: eval_defs)
  have r: "run connecting fresh = run connecting (constructor no_options True 0)"
    by (simp add: fresh_def)
  from closure_before_open_schedules_reconnect [OF r, of 0 "''c1''" 0 1006 "''''"] f
  show ?thesis by simp
qed

section \<open>Chat session: connecting again\<close>




section \<open>Chat session: the stored channel id\<close>



section \<open>REST client: retry after 401\<close>

lemma setTokenExpiry_frame [simp]:
  "refreshToken (setTokenExpiry e s) = refreshToken s"
  "accessToken (setTokenExpiry e s) = accessToken s"
  "autoRefreshToken (setTokenExpiry e s) = autoRefreshToken s"
  "requests (setTokenExpiry e s) = requests s"
  "eventHandlers (setTokenExpiry e s) = eventHandlers s"
  by (simp_all add: setTokenExpiry_def)

lemma httpClient_accepted:
  assumes "server (length (requests s)) = Response status d" and "200 \<le> status" and "status < 300"
  shows "httpClient (Suc n) server req s = Some (Inr d, s\<lparr>requests := requests s @ [req]\<rparr>)"
  using assms by (simp add: Let_def)

lemma refresh_accepted:
  assumes "truthy (refreshToken s)"
    and "server (length (requests s)) = Response 200 (JObj kvs)"
  shows "\<exists>s'. refreshAccessToken (Suc (Suc n)) server s = Some (Inr (JObj kvs), s') \<and>
              refreshToken s' = field (JObj kvs) ''refreshToken'' \<and>
              autoRefreshToken s' = autoRefreshToken s \<and>
              requests s' = requests s @ [Request ''POST'' ''/auth/v1/token'' JUndefined]"
proof -
  have "httpClient (Suc n) server (Request ''POST'' ''/auth/v1/token'' JUndefined) s =
      Some (Inr (JObj kvs), s\<lparr>requests := requests s @ [Request ''POST'' ''/auth/v1/token'' JUndefined]\<rparr>)"
    by (rule httpClient_accepted [where server = server and s = s, OF assms(2)]) simp_all
  then show ?thesis
    using assms(1) by (simp add: field_def del: httpClient.simps)
qed

text \<open>One round of the interceptor: a 401, an accepted refresh, and the retry.\<close>

lemma unauthorized_round:
  assumes "autoRefreshToken s" and "truthy (refreshToken s)"
    and "server (length (requests s)) = Response 401 b"
    and "server (Suc (length (requests s))) = Response 200 (JObj kvs)"
  shows "\<exists>s3 req'. httpClient (Suc (Suc (Suc m))) server req s =
                      httpClient (Suc (Suc m)) server req' s3 \<and>
                    length (requests s3) = length (requests s) + 2 \<and>
                    autoRefreshToken s3 \<and>
                    refreshToken s3 = field (JObj kvs) ''refreshToken''"
proof -
  let ?s1 = "s\<lparr>requests := requests s @ [req]\<rparr>"
  have a: "truthy (refreshToken ?s1)" using assms(2) by simp
  have b: "server (length (requests ?s1)) = Response 200 (JObj kvs)" using assms(4) by simp
  from refresh_accepted [where s = ?s1 and server = server and n = m, OF a b]
  obtain s2 where s2: "refreshAccessToken (Suc (Suc m)) server ?s1 = Some (Inr (JObj kvs), s2)"
    and s2r: "refreshToken s2 = field (JObj kvs) ''refreshToken''"
    and s2a: "autoRefreshToken s2 = autoRefreshToken s"
    and s2q: "requests s2 = requests s @ [req, Request ''POST'' ''/auth/v1/token'' JUndefined]"
    by auto
  let ?s3 = "snd (triggerEvent ''tokenRefresh'' (JObj [(''timestamp'', JNum (now s2))]) s2)"
  have "httpClient (Suc (Suc (Suc m))) server req s =
      httpClient (Suc (Suc m)) server (with_authorization req (accessToken ?s3)) ?s3"
    apply (subst httpClient.simps(2))
    apply (simp only: Let_def assms(3) http_response.case)
    using assms(1,2) s2 apply (simp del: httpClient.simps refreshAccessToken.simps)
    done
  moreover have "length (requests ?s3) = length (requests s) + 2" using s2q by simp
  moreover have "autoRefreshToken ?s3" using s2a assms(1) by simp
  moreover have "refreshToken ?s3 = field (JObj kvs) ''refreshToken''" using s2r by simp
  ultimately show ?thesis by blast
qed




text \<open>
  Against a server that answers 401 to the request every time and accepts every
  refresh, the call does not return, whatever the fuel.
\<close>

lemma endless_unauthorized_never_returns:
  assumes "autoRefreshToken s" and "truthy (refreshToken s)"
    and "\<forall>j. server (length (requests s) + 2 * j) = Response 401 (unauth j) \<and>
             server (length (requests s) + 2 * j + 1) = Response 200 (JObj (tokens j)) \<and>
             truthy (field (JObj (tokens j)) ''refreshToken'')"
  shows "httpClient n server req s = None"
  using assms
proof (induction n arbitrary: s req unauth tokens rule: less_induct)
  case (less n)
  from less.prems(3) have "server (length (requests s) + 2 * 0) = Response 401 (unauth 0) \<and>
      server (length (requests s) + 2 * 0 + 1) = Response 200 (JObj (tokens 0)) \<and>
      truthy (field (JObj (tokens 0)) ''refreshToken'')" by blast
  then have first: "server (length (requests s)) = Response 401 (unauth 0)"
    and second: "server (Suc (length (requests s))) = Response 200 (JObj (tokens 0))"
    and rt: "truthy (field (JObj (tokens 0)) ''refreshToken'')"
    by simp_all
  have "n = 0 \<or> n = Suc 0 \<or> n = Suc (Suc 0) \<or> n = Suc (Suc (Suc (n - 3)))" by arith
  then consider "n = 0" | "n = Suc 0" | "n = Suc (Suc 0)" | m where "n = Suc (Suc (Suc m))"
    by blast
  then show ?case
  proof cases
    case 1
    then show ?thesis by simp
  next
    case 2
    with first less.prems(1,2) show ?thesis by (simp add: Let_def)
  next
    case 3
    with first less.prems(1,2) show ?thesis by (simp add: Let_def)
  next
    case (4 m)
    from unauthorized_round [OF less.prems(1,2) first second, of m req]
    obtain s3 req' where step: "httpClient n server req s = httpClient (Suc (Suc m)) server req' s3"
      and len3: "length (requests s3) = length (requests s) + 2"
      and a3: "autoRefreshToken s3"
      and r3: "refreshToken s3 = field (JObj (tokens 0)) ''refreshToken''"
      unfolding 4 by blast
    have h3: "\<forall>j. server (length (requests s3) + 2 * j) = Response 401 (unauth (Suc j)) \<and>
          server (length (requests s3) + 2 * j + 1) = Response 200 (JObj (tokens (Suc j))) \<and>
          truthy (field (JObj (tokens (Suc j))) ''refreshToken'')"
    proof
      fix j
      from less.prems(3) have "server (length (requests s) + 2 * Suc j) = Response 401 (unauth (Suc j)) \<and>
          server (length (requests s) + 2 * Suc j + 1) = Response 200 (JObj (tokens (Suc j))) \<and>
          truthy (field (JObj (tokens (Suc j))) ''refreshToken'')" by blast
      moreover have "length (requests s3) + 2 * j = length (requests s) + 2 * Suc j"
        using len3 by simp
      ultimately show "server (length (requests s3) + 2 * j) = Response 401 (unauth (Suc j)) \<and>
          server (length (requests s3) + 2 * j + 1) = Response 200 (JObj (tokens (Suc j))) \<and>
          truthy (field (JObj (tokens (Suc j))) ''refreshToken'')"
        by simp
    qed
    have t3: "truthy (refreshToken s3)" using r3 rt by simp
    have "Suc (Suc m) < n" using 4 by simp
    from less.IH [OF this a3 t3 h3, of req'] step show ?thesis by simp
  qed
qed

section \<open>REST client: the event names\<close>

text \<open>
  A REST call that returns has emitted at most \<open>tokenRefresh\<close> and
  \<open>tokenExpired\<close> events; like every dispatch, these leave the keys of
  \<open>this.eventHandlers\<close> as they are.
\<close>

lemma http_dom:
  "(\<forall>server req s r s'. httpClient n server req s = Some (r, s') \<longrightarrow>
      dom (eventHandlers s') = dom (eventHandlers s)) \<and>
   (\<forall>server s r s'. refreshAccessToken n server s = Some (r, s') \<longrightarrow>
      dom (eventHandlers s') = dom (eventHandlers s))"
proof (induction n)
  case 0
  show ?case by simp
next
  case (Suc n)
  have h: "dom (eventHandlers s') = dom (eventHandlers s)"
    if "httpClient (Suc n) server req s = Some (r, s')" for server req s r s'
  proof (cases "server (length (requests s))")
    case NoResponse
    with that show ?thesis by (auto simp: Let_def)
  next
    case (Response status body)
    let ?s1 = "s\<lparr>requests := requests s @ [req]\<rparr>"
    show ?thesis
    proof (cases "200 \<le> status \<and> status < 300")
      case True
      with that Response show ?thesis by (auto simp: Let_def)
    next
      case False
      show ?thesis
      proof (cases "autoRefreshToken s \<and> status = 401 \<and> truthy (refreshToken s)")
        case no: False
        with that Response False show ?thesis by (auto simp: Let_def)
      next
        case yes: True
        show ?thesis
        proof (cases "refreshAccessToken n server ?s1")
          case None
          with that Response False yes show ?thesis by (simp add: Let_def)
        next
          case (Some a)
          obtain r2 s2 where a: "a = (r2, s2)" by (cases a)
          with Some Suc.IH have d2: "dom (eventHandlers s2) = dom (eventHandlers ?s1)" by blast
          show ?thesis
          proof (cases r2)
            case (Inl e)
            with that Response False yes Some a
            have "s' = snd (triggerEvent ''tokenExpired''
                (JObj [(''timestamp'', JNum (now s2)), (''error'', JStr ''refreshError'')]) s2)"
              by (simp add: Let_def)
            with d2 show ?thesis by simp
          next
            case (Inr b)
            let ?s3 = "snd (triggerEvent ''tokenRefresh'' (JObj [(''timestamp'', JNum (now s2))]) s2)"
            from that Response False yes Some a Inr
            have "httpClient n server (with_authorization req (accessToken ?s3)) ?s3 = Some (r, s')"
              by (simp add: Let_def)
            with Suc.IH have "dom (eventHandlers s') = dom (eventHandlers ?s3)" by blast
            with d2 show ?thesis by simp
          qed
        qed
      qed
    qed
  qed
  have f: "dom (eventHandlers s') = dom (eventHandlers s)"
    if "refreshAccessToken (Suc n) server s = Some (r, s')" for server s r s'
  proof (cases "truthy (refreshToken s)")
    case False
    with that show ?thesis by simp
  next
    case True
    show ?thesis
    proof (cases "httpClient n server (Request ''POST'' ''/auth/v1/token'' JUndefined) s")
      case None
      with that True show ?thesis by simp
    next
      case (Some a)
      obtain r1 s1 where a: "a = (r1, s1)" by (cases a)
      with Some Suc.IH have "dom (eventHandlers s1) = dom (eventHandlers s)" by blast
      with that True Some a show ?thesis
        by (cases r1) (clarsimp split: sum.splits)+
    qed
  qed
  from h f show ?case by blast
qed

lemma httpClient_dom:
  "httpClient n server req s = Some (r, s') \<Longrightarrow> dom (eventHandlers s') = dom (eventHandlers s)"
  using http_dom by blast

lemma refreshAccessToken_dom:
  "refreshAccessToken n server s = Some (r, s') \<Longrightarrow> dom (eventHandlers s') = dom (eventHandlers s)"
  using http_dom by blast

lemma getChatAccessToken_dom:
  assumes "getChatAccessToken n server c s = Some (r, s')"
  shows "dom (eventHandlers s') = dom (eventHandlers s)"
proof -
  from assms obtain r1 s1 where e: "ensureValidToken n server s = Some (r1, s1)"
    by (auto simp: getChatAccessToken_def split: option.splits)
  have d1: "dom (eventHandlers s1) = dom (eventHandlers s)"
  proof (cases "refreshAccessToken n server s")
    case None
    with e show ?thesis by (simp add: ensureValidToken_def split: if_splits)
  next
    case (Some a)
    obtain r0 s0 where a: "a = (r0, s0)" by (cases a)
    with Some have "dom (eventHandlers s0) = dom (eventHandlers s)"
      by (simp add: refreshAccessToken_dom)
    with e Some a show ?thesis
      by (cases r0) (simp_all add: ensureValidToken_def split: if_splits)
  qed
  show ?thesis
  proof (cases r1)
    case (Inl e1)
    with assms e d1 show ?thesis by (simp add: getChatAccessToken_def)
  next
    case (Inr u)
    with assms e obtain r2 s2 where
      "httpClient n server (Request ''GET'' (''/open/v1/chats/access-token?channelId='' @ c)
         (accessToken s1)) s1 = Some (r2, s2)" and "s' = s2"
      by (auto simp: getChatAccessToken_def split: option.splits sum.splits if_splits)
    with d1 httpClient_dom show ?thesis by simp
  qed
qed

end
